theory Spec2Isabelle
  imports Complex_Main "HOL-Library.Word" "HOL-Library.Sublist"
begin

text \<open>
  A model of the speech pages of the VoiceBridge frontend: the WAV encoder, the history
  kept in \<open>localStorage\<close>, and the handlers of recording, upload, speech synthesis and
  live transcription of \<open>SpeechLab.jsx\<close>, with the recording timer of
  \<open>VoicePersonalizer.jsx\<close>. The definitions come first, the properties after them.
\<close>

section \<open>Errors\<close>

text \<open>
  The exceptions the modelled JavaScript can raise. A function that can throw returns
  \<open>error + 'a\<close>, with \<open>Inl\<close> for the exception.
\<close>

datatype error =
    RangeError
  | SyntaxError
  | TransportError
  | DeviceError
  | SynthesisError
  | NotSupported
  | InvalidStateError
  | TypeError

definition bindE :: "error + 'a \<Rightarrow> ('a \<Rightarrow> error + 'b) \<Rightarrow> error + 'b" where
  "bindE m f = (case m of Inl e \<Rightarrow> Inl e | Inr x \<Rightarrow> f x)"

section \<open>JavaScript numbers of the sample path\<close>

text \<open>
  A channel of an \<open>AudioBuffer\<close> is a \<open>Float32Array\<close>. Its elements are read as
  JavaScript numbers: a finite value, an infinity or NaN. A finite single-precision value
  has a 24-bit significand, so its product with \<open>0x8000\<close> or \<open>0x7FFF\<close> is exact in
  double precision; the finite case is therefore modelled by exact arithmetic on \<open>real\<close>.
\<close>

datatype jsnum = Fin real | PosInf | NegInf | NaN

fun Math_min :: "jsnum \<Rightarrow> jsnum \<Rightarrow> jsnum" where
  "Math_min NaN b = NaN"
| "Math_min a NaN = NaN"
| "Math_min NegInf b = NegInf"
| "Math_min a NegInf = NegInf"
| "Math_min PosInf b = b"
| "Math_min a PosInf = a"
| "Math_min (Fin x) (Fin y) = Fin (min x y)"

fun Math_max :: "jsnum \<Rightarrow> jsnum \<Rightarrow> jsnum" where
  "Math_max NaN b = NaN"
| "Math_max a NaN = NaN"
| "Math_max PosInf b = PosInf"
| "Math_max a PosInf = PosInf"
| "Math_max NegInf b = b"
| "Math_max a NegInf = a"
| "Math_max (Fin x) (Fin y) = Fin (max x y)"

text \<open>\<open>a < b\<close> on numbers; every comparison with NaN is false.\<close>

fun js_less :: "jsnum \<Rightarrow> jsnum \<Rightarrow> bool" where
  "js_less NaN b = False"
| "js_less a NaN = False"
| "js_less PosInf b = False"
| "js_less a NegInf = False"
| "js_less NegInf b = True"
| "js_less a PosInf = True"
| "js_less (Fin x) (Fin y) = (x < y)"

text \<open>\<open>a * c\<close> for a finite constant \<open>c\<close> (the source multiplies by \<open>0x8000\<close> and \<open>0x7FFF\<close>).\<close>

fun js_times :: "jsnum \<Rightarrow> real \<Rightarrow> jsnum" where
  "js_times NaN c = NaN"
| "js_times (Fin x) c = Fin (x * c)"
| "js_times PosInf c = (if c = 0 then NaN else if 0 < c then PosInf else NegInf)"
| "js_times NegInf c = (if c = 0 then NaN else if 0 < c then NegInf else PosInf)"

text \<open>
  \<open>ToInt16\<close>, the conversion \<open>DataView.setInt16\<close> applies to its argument: NaN and the
  infinities become 0, a finite value is truncated towards zero and reduced modulo
  \<open>2^16\<close> into the signed 16-bit range.
\<close>

definition ToInteger :: "real \<Rightarrow> int" where
  "ToInteger x = (if x < 0 then \<lceil>x\<rceil> else \<lfloor>x\<rfloor>)"

definition wrapInt16 :: "int \<Rightarrow> int" where
  "wrapInt16 k = (let m = k mod 65536 in if 32768 \<le> m then m - 65536 else m)"

fun ToInt16 :: "jsnum \<Rightarrow> int" where
  "ToInt16 (Fin x) = wrapInt16 (ToInteger x)"
| "ToInt16 PosInf = 0"
| "ToInt16 NegInf = 0"
| "ToInt16 NaN = 0"

section \<open>ArrayBuffer and DataView\<close>

type_synonym byte = "8 word"

text \<open>
  \<open>new ArrayBuffer(n)\<close> gives \<open>n\<close> zero bytes, and throws a \<open>RangeError\<close> when a buffer of
  that size cannot be created. The largest size the browser creates, \<open>maxByteLength\<close>, is
  a parameter.
\<close>

definition ArrayBuffer :: "nat \<Rightarrow> nat \<Rightarrow> error + byte list" where
  "ArrayBuffer maxByteLength n =
     (if n \<le> maxByteLength then Inr (replicate n 0) else Inl RangeError)"

text \<open>The \<open>n\<close> low bytes of a value, least significant first.\<close>

fun le_bytes :: "nat \<Rightarrow> nat \<Rightarrow> byte list" where
  "le_bytes 0 v = []"
| "le_bytes (Suc n) v = of_nat (v mod 256) # le_bytes n (v div 256)"

text \<open>
  Every \<open>DataView\<close> setter checks that the bytes it writes lie inside the buffer and
  throws a \<open>RangeError\<close> otherwise.
\<close>

definition store :: "byte list \<Rightarrow> nat \<Rightarrow> byte list \<Rightarrow> error + byte list" where
  "store view byteOffset bs =
     (if byteOffset + length bs \<le> length view
      then Inr (take byteOffset view @ bs @ drop (byteOffset + length bs) view)
      else Inl RangeError)"

definition setUint8 :: "byte list \<Rightarrow> nat \<Rightarrow> nat \<Rightarrow> error + byte list" where
  "setUint8 view byteOffset v = store view byteOffset (le_bytes 1 v)"

definition setUint16 :: "byte list \<Rightarrow> nat \<Rightarrow> nat \<Rightarrow> error + byte list" where
  "setUint16 view byteOffset v = store view byteOffset (le_bytes 2 v)"

definition setUint32 :: "byte list \<Rightarrow> nat \<Rightarrow> nat \<Rightarrow> error + byte list" where
  "setUint32 view byteOffset v = store view byteOffset (le_bytes 4 v)"

definition int16_bytes :: "int \<Rightarrow> byte list" where
  "int16_bytes k = le_bytes 2 (nat (k mod 65536))"

definition setInt16 :: "byte list \<Rightarrow> nat \<Rightarrow> jsnum \<Rightarrow> error + byte list" where
  "setInt16 view byteOffset v = store view byteOffset (int16_bytes (ToInt16 v))"

text \<open>Reading the fields back, little-endian.\<close>

definition getUint16 :: "byte list \<Rightarrow> nat \<Rightarrow> nat" where
  "getUint16 bs off = unat (bs ! off) + 256 * unat (bs ! (off + 1))"

definition getUint32 :: "byte list \<Rightarrow> nat \<Rightarrow> nat" where
  "getUint32 bs off =
     unat (bs ! off) + 256 * unat (bs ! (off + 1))
       + 65536 * unat (bs ! (off + 2)) + 16777216 * unat (bs ! (off + 3))"

definition getInt16 :: "byte list \<Rightarrow> nat \<Rightarrow> int" where
  "getInt16 bs off = wrapInt16 (int (getUint16 bs off))"

definition ascii :: "string \<Rightarrow> byte list" where
  "ascii s = map (\<lambda>c. of_nat (of_char c)) s"

section \<open>The WAV encoder\<close>

text \<open>
  The decoded audio: \<open>getChannelData c\<close> is the \<open>Float32Array\<close> of channel \<open>c\<close>.
  The field \<open>length\<close> of the source is \<open>frames\<close> here.
\<close>

record audioBuffer =
  numberOfChannels :: nat
  sampleRate :: nat
  frames :: nat
  getChannelData :: "nat \<Rightarrow> jsnum list"

text \<open>An index past the end of a typed array reads \<open>undefined\<close>, which \<open>Math.min\<close> turns into NaN.\<close>

definition sampleAt :: "audioBuffer \<Rightarrow> nat \<Rightarrow> nat \<Rightarrow> jsnum" where
  "sampleAt audio channel i =
     (let arr = getChannelData audio channel in if i < length arr then arr ! i else NaN)"

definition clampSample :: "jsnum \<Rightarrow> jsnum" where
  "clampSample x = Math_max (Fin (- 1)) (Math_min (Fin 1) x)"

definition scaleSample :: "jsnum \<Rightarrow> jsnum" where
  "scaleSample sample =
     (if js_less sample (Fin 0) then js_times sample 32768 else js_times sample 32767)"

fun writeString :: "byte list \<Rightarrow> nat \<Rightarrow> string \<Rightarrow> error + byte list" where
  "writeString view offset [] = Inr view"
| "writeString view offset (c # cs) =
     bindE (setUint8 view offset (of_char c)) (\<lambda>view. writeString view (Suc offset) cs)"

text \<open>The inner loop over the channels of frame \<open>i\<close>; the state is the view and the offset.\<close>

fun writeFrame :: "audioBuffer \<Rightarrow> nat \<Rightarrow> nat list \<Rightarrow> byte list \<times> nat \<Rightarrow> error + byte list \<times> nat" where
  "writeFrame audio i [] st = Inr st"
| "writeFrame audio i (channel # channels) (view, offset) =
     bindE (setInt16 view offset (scaleSample (clampSample (sampleAt audio channel i))))
       (\<lambda>view. writeFrame audio i channels (view, offset + 2))"

text \<open>The outer loop over the frames.\<close>

fun writeFrames :: "audioBuffer \<Rightarrow> nat list \<Rightarrow> byte list \<times> nat \<Rightarrow> error + byte list \<times> nat" where
  "writeFrames audio [] st = Inr st"
| "writeFrames audio (i # is) st =
     bindE (writeFrame audio i [0 ..< numberOfChannels audio] st)
       (\<lambda>st. writeFrames audio is st)"

definition encodeWAV :: "nat \<Rightarrow> audioBuffer \<Rightarrow> error + byte list" where
  "encodeWAV maxByteLength audio =
     (let numChannels = numberOfChannels audio;
          bitDepth = 16;
          bytesPerSample = bitDepth div 8;
          blockAlign = numChannels * bytesPerSample;
          byteRate = sampleRate audio * blockAlign;
          dataSize = frames audio * blockAlign
      in
      bindE (ArrayBuffer maxByteLength (44 + dataSize)) (\<lambda>view.
      bindE (writeString view 0 ''RIFF'') (\<lambda>view.
      bindE (setUint32 view 4 (36 + dataSize)) (\<lambda>view.
      bindE (writeString view 8 ''WAVE'') (\<lambda>view.
      bindE (writeString view 12 ''fmt '') (\<lambda>view.
      bindE (setUint32 view 16 16) (\<lambda>view.
      bindE (setUint16 view 20 1) (\<lambda>view.
      bindE (setUint16 view 22 numChannels) (\<lambda>view.
      bindE (setUint32 view 24 (sampleRate audio)) (\<lambda>view.
      bindE (setUint32 view 28 byteRate) (\<lambda>view.
      bindE (setUint16 view 32 blockAlign) (\<lambda>view.
      bindE (setUint16 view 34 bitDepth) (\<lambda>view.
      bindE (writeString view 36 ''data'') (\<lambda>view.
      bindE (setUint32 view 40 dataSize) (\<lambda>view.
      bindE (writeFrames audio [0 ..< frames audio] (view, 44)) (\<lambda>(view, offset).
      Inr view))))))))))))))))"

text \<open>
  The 16-bit value stored for one sample: the argument of \<open>setInt16\<close> after the
  conversion the setter applies.
\<close>

definition quantize :: "jsnum \<Rightarrow> int" where
  "quantize x = ToInt16 (scaleSample (clampSample x))"

text \<open>
  The bytes the loops write for one frame and for all frames, and the 44 header bytes,
  as lists: the closed form of the encoder's result used in the proofs.
\<close>

definition frameData :: "audioBuffer \<Rightarrow> nat \<Rightarrow> byte list" where
  "frameData audio i =
     concat (map (\<lambda>channel. int16_bytes (quantize (sampleAt audio channel i)))
       [0 ..< numberOfChannels audio])"

definition pcmData :: "audioBuffer \<Rightarrow> byte list" where
  "pcmData audio = concat (map (frameData audio) [0 ..< frames audio])"

definition wavHeader :: "audioBuffer \<Rightarrow> byte list" where
  "wavHeader audio =
     (let m = numberOfChannels audio; r = sampleRate audio; n = frames audio in
      ascii ''RIFF'' @ le_bytes 4 (36 + n * (m * 2)) @ ascii ''WAVE'' @ ascii ''fmt '' @
      le_bytes 4 16 @ le_bytes 2 1 @ le_bytes 2 m @ le_bytes 4 r @ le_bytes 4 (r * (m * 2)) @
      le_bytes 2 (m * 2) @ le_bytes 2 16 @ ascii ''data'' @ le_bytes 4 (n * (m * 2)))"

text \<open>
  The stored value in the words of the specification, to compare the encoder with: the
  sample clamped to \<open>[-1, 1]\<close>, then scaled by \<open>0x8000\<close> when it is negative and by
  \<open>0x7FFF\<close> otherwise, the fraction dropped. An infinite sample is clamped like a large
  finite one; NaN, of which the specification says nothing, is stored as 0.
\<close>

definition spec_pcm16 :: "real \<Rightarrow> int" where
  "spec_pcm16 x =
     (let s = max (- 1) (min 1 x) in if s < 0 then \<lceil>s * 32768\<rceil> else \<lfloor>s * 32767\<rfloor>)"

fun spec_sample :: "jsnum \<Rightarrow> int" where
  "spec_sample (Fin x) = spec_pcm16 x"
| "spec_sample PosInf = 32767"
| "spec_sample NegInf = - 32768"
| "spec_sample NaN = 0"

text \<open>
  What \<open>decodeAudioData\<close> returns: every channel holds as many samples as the buffer has
  frames.
\<close>

definition decoded :: "audioBuffer \<Rightarrow> bool" where
  "decoded audio =
     list_all (\<lambda>channel. length (getChannelData audio channel) = frames audio)
       [0 ..< numberOfChannels audio]"

text \<open>Two buffers of two frames, one mono and one stereo.\<close>

definition monoTake :: audioBuffer where
  "monoTake = \<lparr> numberOfChannels = 1, sampleRate = 16000, frames = 2,
     getChannelData = (\<lambda>c. [Fin 1, Fin (- 1)]) \<rparr>"

definition stereoTake :: audioBuffer where
  "stereoTake = \<lparr> numberOfChannels = 2, sampleRate = 48000, frames = 2,
     getChannelData = (\<lambda>c. if c = 0 then [Fin 0, Fin 1] else [Fin (- 1), Fin 2]) \<rparr>"

section \<open>The history store\<close>

text \<open>
  A history entry as \<open>saveSTTHistory\<close> and \<open>saveTTSHistory\<close> build it. A speech-to-text
  entry carries \<open>accuracy\<close>, a text-to-speech entry \<open>voiceModel\<close>; the history page may
  add a \<open>favorite\<close> flag to a stored entry.
\<close>

record historyItem =
  item_id :: string
  item_content :: string
  item_accuracy :: "real option"
  item_voiceModel :: "string option"
  item_language :: string
  item_duration :: real
  item_timestamp :: string
  item_type :: string
  item_favorite :: "bool option"

text \<open>
  \<open>localStorage\<close> maps a key to a string. A stored string is modelled by what
  \<open>JSON.parse\<close> makes of it: the JSON text of an array of history entries, or a text that
  is not JSON, on which \<open>JSON.parse\<close> throws unless it is empty (the source reads
  \<open>getItem(key) || '[]'\<close>, and the empty string is falsy). The values of the keys that
  other parts of the application own are texts of the second kind here.
\<close>

datatype stored = Items "historyItem list" | Text string

type_synonym storage = "string \<rightharpoonup> stored"

definition getItem :: "storage \<Rightarrow> string \<Rightarrow> stored option" where
  "getItem st key = st key"

definition setItem :: "storage \<Rightarrow> string \<Rightarrow> stored \<Rightarrow> storage" where
  "setItem st key v = st(key \<mapsto> v)"

text \<open>\<open>JSON.parse(localStorage.getItem(key) || '[]')\<close>.\<close>

definition parseHistory :: "stored option \<Rightarrow> error + historyItem list" where
  "parseHistory v =
     (case v of
        None \<Rightarrow> Inr []
      | Some (Items xs) \<Rightarrow> Inr xs
      | Some (Text s) \<Rightarrow> if s = [] then Inr [] else Inl SyntaxError)"

text \<open>\<open>array.slice(0, end)\<close>.\<close>

definition slice0 :: "nat \<Rightarrow> 'a list \<Rightarrow> 'a list" where
  "slice0 end xs = take end xs"

text \<open>
  The identifier of \<open>generateUniqueId\<close> and the timestamp of \<open>new Date().toISOString()\<close>
  come from the environment: they are the two components of a \<open>stamp\<close>.
\<close>

type_synonym stamp = "string \<times> string"

text \<open>
  Both functions return the new entry and leave the storage as it is when
  \<open>JSON.parse\<close> throws: the exception leaves the function before \<open>setItem\<close>.
\<close>

definition saveSTTHistory ::
  "stamp \<Rightarrow> string \<Rightarrow> real \<Rightarrow> string \<Rightarrow> real \<Rightarrow> storage \<Rightarrow> (error + historyItem) \<times> storage" where
  "saveSTTHistory stamp transcribedText accuracy language duration st =
     (let historyItem = \<lparr> item_id = fst stamp, item_content = transcribedText,
            item_accuracy = Some accuracy, item_voiceModel = None, item_language = language,
            item_duration = duration, item_timestamp = snd stamp, item_type = ''stt'',
            item_favorite = None \<rparr>
      in case parseHistory (getItem st ''speechLab_stt_history'') of
           Inl e \<Rightarrow> (Inl e, st)
         | Inr existing \<Rightarrow>
             (let updated = historyItem # slice0 49 existing
              in (Inr historyItem, setItem st ''speechLab_stt_history'' (Items updated))))"

definition saveTTSHistory ::
  "stamp \<Rightarrow> string \<Rightarrow> string \<Rightarrow> string \<Rightarrow> real \<Rightarrow> storage \<Rightarrow> (error + historyItem) \<times> storage" where
  "saveTTSHistory stamp text voiceModel language duration st =
     (let historyItem = \<lparr> item_id = fst stamp, item_content = text,
            item_accuracy = None, item_voiceModel = Some voiceModel, item_language = language,
            item_duration = duration, item_timestamp = snd stamp, item_type = ''tts'',
            item_favorite = None \<rparr>
      in case parseHistory (getItem st ''speechLab_tts_history'') of
           Inl e \<Rightarrow> (Inl e, st)
         | Inr existing \<Rightarrow>
             (let updated = historyItem # slice0 49 existing
              in (Inr historyItem, setItem st ''speechLab_tts_history'' (Items updated))))"

text \<open>
  A JavaScript \<open>Map\<close> keeps its keys in the order of their first insertion; \<open>set\<close> on a key
  already present replaces the value in place.
\<close>

fun Map_set :: "('k \<times> 'v) list \<Rightarrow> 'k \<Rightarrow> 'v \<Rightarrow> ('k \<times> 'v) list" where
  "Map_set [] k v = [(k, v)]"
| "Map_set ((k', v') # m) k v = (if k' = k then (k', v) # m else (k', v') # Map_set m k v)"

definition new_Map :: "('k \<times> 'v) list \<Rightarrow> ('k \<times> 'v) list" where
  "new_Map entries = foldl (\<lambda>m (k, v). Map_set m k v) [] entries"

definition Map_values :: "('k \<times> 'v) list \<Rightarrow> 'v list" where
  "Map_values m = map snd m"

text \<open>\<open>Array.from(new Map(history.map(item => [item.id, item])).values())\<close>.\<close>

definition uniqueById :: "historyItem list \<Rightarrow> historyItem list" where
  "uniqueById history = Map_values (new_Map (map (\<lambda>item. (item_id item, item)) history))"

text \<open>Both collections are parsed before either is written; an exception is caught and logged.\<close>

definition cleanupDuplicateHistory :: "storage \<Rightarrow> storage" where
  "cleanupDuplicateHistory st =
     (case parseHistory (getItem st ''speechLab_stt_history'') of
        Inl e \<Rightarrow> st
      | Inr sttHistory \<Rightarrow>
          (case parseHistory (getItem st ''speechLab_tts_history'') of
             Inl e \<Rightarrow> st
           | Inr ttsHistory \<Rightarrow>
               (let uniqueSTT = uniqueById sttHistory;
                    uniqueTTS = uniqueById ttsHistory;
                    st = setItem st ''speechLab_stt_history'' (Items uniqueSTT)
                in setItem st ''speechLab_tts_history'' (Items uniqueTTS))))"

text \<open>
  Appending a sequence of entries, one call after the other; an entry is the stamp and the
  four arguments of the call.
\<close>

type_synonym sttCall = "stamp \<times> string \<times> real \<times> string \<times> real"
type_synonym ttsCall = "stamp \<times> string \<times> string \<times> string \<times> real"

fun sttItem :: "sttCall \<Rightarrow> historyItem" where
  "sttItem (stamp, transcribedText, accuracy, language, duration) =
     \<lparr> item_id = fst stamp, item_content = transcribedText,
       item_accuracy = Some accuracy, item_voiceModel = None, item_language = language,
       item_duration = duration, item_timestamp = snd stamp, item_type = ''stt'',
       item_favorite = None \<rparr>"

fun ttsItem :: "ttsCall \<Rightarrow> historyItem" where
  "ttsItem (stamp, text, voiceModel, language, duration) =
     \<lparr> item_id = fst stamp, item_content = text,
       item_accuracy = None, item_voiceModel = Some voiceModel, item_language = language,
       item_duration = duration, item_timestamp = snd stamp, item_type = ''tts'',
       item_favorite = None \<rparr>"

fun saveAllSTT :: "sttCall list \<Rightarrow> storage \<Rightarrow> storage" where
  "saveAllSTT [] st = st"
| "saveAllSTT ((stamp, transcribedText, accuracy, language, duration) # calls) st =
     saveAllSTT calls (snd (saveSTTHistory stamp transcribedText accuracy language duration st))"

fun saveAllTTS :: "ttsCall list \<Rightarrow> storage \<Rightarrow> storage" where
  "saveAllTTS [] st = st"
| "saveAllTTS ((stamp, text, voiceModel, language, duration) # calls) st =
     saveAllTTS calls (snd (saveTTSHistory stamp text voiceModel language duration st))"

section \<open>Strings\<close>

text \<open>
  \<open>String.prototype.trim\<close> removes white space and line terminators at both ends. Of these
  the 8-bit characters are tab, line feed, vertical tab, form feed, carriage return, space
  and the no-break space.
\<close>

definition isWhiteSpace :: "char \<Rightarrow> bool" where
  "isWhiteSpace c = (of_char c \<in> {9, 10, 11, 12, 13, 32, 160 :: nat})"

definition trim :: "string \<Rightarrow> string" where
  "trim s = rev (dropWhile isWhiteSpace (rev (dropWhile isWhiteSpace s)))"

text \<open>\<open>a || b\<close> where \<open>a\<close> is a string, \<open>null\<close> or \<open>undefined\<close>: the empty string is falsy.\<close>

definition orElse :: "string option \<Rightarrow> string \<Rightarrow> string" where
  "orElse a b = (case a of None \<Rightarrow> b | Some s \<Rightarrow> if s = [] then b else s)"

definition toLowerCase :: "string \<Rightarrow> string" where
  "toLowerCase s =
     map (\<lambda>c. if 65 \<le> (of_char c :: nat) \<and> (of_char c :: nat) \<le> 90
               then char_of (of_char c + 32 :: nat) else c) s"

text \<open>The number of positions of a text at which a pattern occurs.\<close>

fun occurrences :: "string \<Rightarrow> string \<Rightarrow> nat" where
  "occurrences pat [] = (if pat = [] then 1 else 0)"
| "occurrences pat (c # cs) = (if prefix pat (c # cs) then 1 else 0) + occurrences pat cs"

section \<open>The SpeechLab component\<close>

text \<open>
  The React state of the component. The state variable \<open>text\<close> of the source is
  \<open>text_state\<close> here. A function of the component is a closure over the state of the
  render that created it: every handler below takes that captured state as its first
  argument \<open>c\<close> and reads the state variables from it, while the setters act on the
  current world.
\<close>

record upload =
  file_size :: nat
  file_type :: string
  file_name :: string

record component =
  text_state :: string
  isLoading :: bool
  transcribedText :: string
  isRecording :: bool
  isPlaying :: bool
  audioFile :: "upload option"
  isLiveTranscribing :: bool
  interimTranscript :: string
  liveSessionText :: string
  backendConnected :: bool
  language :: string
  voiceModel :: string
  autoSpeak :: bool
  sttHistory :: "historyItem list"
  ttsHistory :: "historyItem list"

datatype recorder = Recording | Inactive

text \<open>
  A \<open>SpeechRecognition\<close> object: whether its stream is running, and the state its
  handlers \<open>onresult\<close>, \<open>onerror\<close> and \<open>onend\<close> captured when the effect created them.
\<close>

record recognizer =
  running :: bool
  handlers :: component

text \<open>
  The world a handler acts on: the current React state, the storage, the refs, the
  microphone, the recognition objects created so far (\<open>recognitionRef\<close> is the index of
  \<open>recognitionRef.current\<close>), the pending timers (delay in milliseconds and the state
  captured by the callback), and the logs of the alerts shown, of the requests sent and
  of the exceptions nobody caught.
\<close>

record world =
  ui :: component
  localStorage :: storage
  mediaRecorderRef :: "recorder option"
  audioChunksRef :: "nat list"
  microphone :: bool
  speechRecognitionSupported :: bool
  recognizers :: "recognizer list"
  recognitionRef :: "nat option"
  timers :: "(nat \<times> component) list"
  alerts :: "string list"
  requests :: "string list"
  uncaught :: "error list"

text \<open>
  What the environment answers: the identifier and timestamp of the next history entries,
  \<open>Math.random()\<close>, the microphone request, the two remote calls and the browser's own
  speech synthesis. A failed request or a non-success status is \<open>Inl\<close>.
\<close>

record response =
  resp_text :: "string option"
  resp_transcription :: "string option"

record env =
  stamp1 :: stamp
  stamp2 :: stamp
  random :: real
  getUserMedia :: "error + unit"
  speechToText :: "error + response"
  textToSpeech :: "error + unit"
  speechSynthesis :: "error + unit"

definition setIsLoading :: "bool \<Rightarrow> world \<Rightarrow> world" where
  "setIsLoading v w = w\<lparr>ui := (ui w)\<lparr>isLoading := v\<rparr>\<rparr>"

definition setIsPlaying :: "bool \<Rightarrow> world \<Rightarrow> world" where
  "setIsPlaying v w = w\<lparr>ui := (ui w)\<lparr>isPlaying := v\<rparr>\<rparr>"

definition setIsRecording :: "bool \<Rightarrow> world \<Rightarrow> world" where
  "setIsRecording v w = w\<lparr>ui := (ui w)\<lparr>isRecording := v\<rparr>\<rparr>"

definition setIsLiveTranscribing :: "bool \<Rightarrow> world \<Rightarrow> world" where
  "setIsLiveTranscribing v w = w\<lparr>ui := (ui w)\<lparr>isLiveTranscribing := v\<rparr>\<rparr>"

definition setAudioFile :: "upload option \<Rightarrow> world \<Rightarrow> world" where
  "setAudioFile v w = w\<lparr>ui := (ui w)\<lparr>audioFile := v\<rparr>\<rparr>"

text \<open>The setters of the three texts take an updater of the previous value.\<close>

definition setTranscribedText :: "(string \<Rightarrow> string) \<Rightarrow> world \<Rightarrow> world" where
  "setTranscribedText f w = w\<lparr>ui := (ui w)\<lparr>transcribedText := f (transcribedText (ui w))\<rparr>\<rparr>"

definition setLiveSessionText :: "(string \<Rightarrow> string) \<Rightarrow> world \<Rightarrow> world" where
  "setLiveSessionText f w = w\<lparr>ui := (ui w)\<lparr>liveSessionText := f (liveSessionText (ui w))\<rparr>\<rparr>"

definition setInterimTranscript :: "string \<Rightarrow> world \<Rightarrow> world" where
  "setInterimTranscript v w = w\<lparr>ui := (ui w)\<lparr>interimTranscript := v\<rparr>\<rparr>"

definition setSttHistory :: "historyItem list \<Rightarrow> world \<Rightarrow> world" where
  "setSttHistory v w = w\<lparr>ui := (ui w)\<lparr>sttHistory := v\<rparr>\<rparr>"

definition setTtsHistory :: "historyItem list \<Rightarrow> world \<Rightarrow> world" where
  "setTtsHistory v w = w\<lparr>ui := (ui w)\<lparr>ttsHistory := v\<rparr>\<rparr>"

definition alert :: "string \<Rightarrow> world \<Rightarrow> world" where
  "alert msg w = w\<lparr>alerts := alerts w @ [msg]\<rparr>"

definition fetch :: "string \<Rightarrow> world \<Rightarrow> world" where
  "fetch path w = w\<lparr>requests := requests w @ [path]\<rparr>"

definition throw :: "error \<Rightarrow> world \<Rightarrow> world" where
  "throw e w = w\<lparr>uncaught := uncaught w @ [e]\<rparr>"

text \<open>Both collections are parsed before either state is set; an exception is caught and logged.\<close>

definition loadHistory :: "world \<Rightarrow> world" where
  "loadHistory w =
     (case parseHistory (getItem (localStorage w) ''speechLab_stt_history'') of
        Inl e \<Rightarrow> w
      | Inr stt \<Rightarrow>
          (case parseHistory (getItem (localStorage w) ''speechLab_tts_history'') of
             Inl e \<Rightarrow> w
           | Inr tts \<Rightarrow> setTtsHistory tts (setSttHistory stt w)))"

subsection \<open>Fallback transcription\<close>

definition sampleTexts :: "string list" where
  "sampleTexts =
     [''This is a sample transcription of your audio recording.'',
      ''Your speech has been successfully converted to text.'',
      ''The audio processing is complete and here is your transcribed text.'',
      ''Speech recognition completed. This is the transcribed content.'']"

text \<open>\<open>Math.random()\<close> lies in \<open>[0, 1)\<close>: the environment's number is reduced to its fractional part.\<close>

definition Math_random :: "env \<Rightarrow> real" where
  "Math_random e = frac (random e)"

definition simulateBrowserTranscription :: "env \<Rightarrow> string" where
  "simulateBrowserTranscription e =
     sampleTexts ! nat \<lfloor>Math_random e * real (length sampleTexts)\<rfloor>"

subsection \<open>Text to speech\<close>

text \<open>
  The browser's synthesis: without support the promise is rejected at once; otherwise the
  utterance is spoken and \<open>isPlaying\<close> set, and the end of the utterance resets it.
\<close>

definition realTextToSpeech :: "env \<Rightarrow> world \<Rightarrow> (error + unit) \<times> world" where
  "realTextToSpeech e w =
     (case speechSynthesis e of
        Inr u \<Rightarrow> (Inr (), setIsPlaying False (setIsPlaying True w))
      | Inl NotSupported \<Rightarrow> (Inl NotSupported, w)
      | Inl err \<Rightarrow> (Inl err, setIsPlaying True w))"

definition handleBackendTTS :: "component \<Rightarrow> string \<Rightarrow> env \<Rightarrow> world \<Rightarrow> (error + unit) \<times> world" where
  "handleBackendTTS c textToSpeak e w =
     (if \<not> backendConnected c then realTextToSpeech e w
      else
        (let w = setIsLoading True w;
             w = fetch ''/api/text-to-speech'' w
         in case textToSpeech e of
              Inr u \<Rightarrow> (Inr (), setIsLoading False (setIsPlaying True w))
            | Inl err \<Rightarrow>
                (let (r, w) = realTextToSpeech e w in (r, setIsLoading False w))))"

definition handleTextToSpeech :: "component \<Rightarrow> string option \<Rightarrow> env \<Rightarrow> world \<Rightarrow> world" where
  "handleTextToSpeech c customText e w =
     (let textToSpeak = orElse customText (text_state c) in
      if trim textToSpeak = [] then alert ''Please enter some text to convert to speech.'' w
      else
        (let w = setIsLoading True w;
             (r, w) = (if backendConnected c then handleBackendTTS c textToSpeak e w
                       else realTextToSpeech e w)
         in case r of
              Inl err \<Rightarrow> setIsLoading False (alert ''Text-to-speech failed. Please try again.'' w)
            | Inr u \<Rightarrow>
                (let duration = real (length textToSpeak) / 10;
                     (saved, st) = saveTTSHistory (stamp1 e) textToSpeak (voiceModel c)
                                     (language c) duration (localStorage w);
                     w = w\<lparr>localStorage := st\<rparr>
                 in case saved of
                      Inl err \<Rightarrow>
                        setIsLoading False (alert ''Text-to-speech failed. Please try again.'' w)
                    | Inr item \<Rightarrow> setIsLoading False (loadHistory w))))"

subsection \<open>Audio upload\<close>

definition allowedTypes :: "string list" where
  "allowedTypes = [''audio/mpeg'', ''audio/wav'', ''audio/webm'', ''audio/ogg'',
     ''audio/x-m4a'', ''audio/mp4'']"

text \<open>The test \<open>file.name.match(/\.(mp3|wav|webm|ogg|m4a|mp4)$/i)\<close>.\<close>

definition hasAudioExtension :: "string \<Rightarrow> bool" where
  "hasAudioExtension name =
     list_ex (\<lambda>ext. suffix (CHR ''.'' # ext) (toLowerCase name))
       [''mp3'', ''wav'', ''webm'', ''ogg'', ''m4a'', ''mp4'']"

text \<open>
  The part shared by the upload and by the end of a recording: show the transcription,
  save it, reload the history; when saving throws, show the fixed fallback text and save
  that. An exception of the second save leaves the handler: it is the result \<open>Inl\<close>.
\<close>

definition recordTranscription ::
  "component \<Rightarrow> env \<Rightarrow> string \<Rightarrow> real \<Rightarrow> string \<Rightarrow> real \<Rightarrow> real \<Rightarrow> world
     \<Rightarrow> (error + unit) \<times> world" where
  "recordTranscription c e transcription accuracy fallbackText fallbackAccuracy duration w =
     (let w = setTranscribedText (\<lambda>prev. transcription) w;
          (saved, st) = saveSTTHistory (stamp1 e) transcription accuracy (language c) duration
                          (localStorage w);
          w = w\<lparr>localStorage := st\<rparr>
      in case saved of
           Inr item \<Rightarrow> (Inr (), setIsLoading False (loadHistory w))
         | Inl err \<Rightarrow>
             (let w = setTranscribedText (\<lambda>prev. fallbackText) w;
                  (saved, st) = saveSTTHistory (stamp2 e) fallbackText fallbackAccuracy
                                  (language c) duration (localStorage w);
                  w = w\<lparr>localStorage := st\<rparr>
              in case saved of
                   Inr item \<Rightarrow> (Inr (), setIsLoading False (loadHistory w))
                 | Inl err \<Rightarrow> (Inl err, setIsLoading False w)))"

definition handleAudioUpload :: "component \<Rightarrow> upload option \<Rightarrow> env \<Rightarrow> world \<Rightarrow> world" where
  "handleAudioUpload c file e w =
     (case file of
        None \<Rightarrow> w
      | Some f \<Rightarrow>
          if file_size f > 100 * 1024 * 1024
          then alert ''File too large. Please select a file smaller than 100MB.'' w
          else if file_type f \<notin> set allowedTypes \<and> \<not> hasAudioExtension (file_name f)
          then alert ''Please select a valid audio file (MP3, WAV, WebM, OGG, M4A, MP4).'' w
          else
            (let w = setAudioFile (Some f) w;
                 w = setIsLoading True w;
                 (transcription, accuracy, w) =
                   (if backendConnected c then
                      (let w = fetch ''/api/speech-to-text'' w
                       in case speechToText e of
                            Inr result \<Rightarrow>
                              (orElse (resp_text result)
                                 (orElse (resp_transcription result)
                                    ''Transcription completed successfully.''),
                               0.95, w)
                          | Inl err \<Rightarrow> (simulateBrowserTranscription e, 0.92, w))
                    else (simulateBrowserTranscription e, 0.92, w))
             in case recordTranscription c e transcription accuracy
                       ''This is a sample transcription from your uploaded audio file.'' 0.92 10 w of
                  (Inr u, w) \<Rightarrow> w
                | (Inl err, w) \<Rightarrow> throw err w))"

subsection \<open>Recording\<close>

text \<open>
  \<open>transcribeWithWhisper\<close>: the request is sent; a failure of the request or a non-success
  status is thrown, otherwise \<open>result.text || result.transcription || ''\<close> is returned.
\<close>

definition transcribeWithWhisper :: "env \<Rightarrow> world \<Rightarrow> (error + string) \<times> world" where
  "transcribeWithWhisper e w =
     (let w = fetch ''/api/speech-to-text'' w
      in case speechToText e of
           Inl err \<Rightarrow> (Inl err, w)
         | Inr result \<Rightarrow> (Inr (orElse (resp_text result) (orElse (resp_transcription result) [])), w))"

text \<open>
  The handler \<open>mediaRecorder.onstop\<close> that \<open>startRecording\<close> installs. The tracks of the
  microphone are stopped at its end, which an exception leaving the handler does not reach.
\<close>

definition onstop :: "component \<Rightarrow> env \<Rightarrow> world \<Rightarrow> world" where
  "onstop c e w =
     (let (r, w) =
        (if audioChunksRef w \<noteq> [] then
           (let w = setIsLoading True w;
                (transcription, accuracy, w) =
                  (if backendConnected c then
                     (case transcribeWithWhisper e w of
                        (Inr t, w) \<Rightarrow> (t, 0.95, w)
                      | (Inl whisperError, w) \<Rightarrow> (simulateBrowserTranscription e, 0.85, w))
                   else (simulateBrowserTranscription e, 0.85, w))
            in recordTranscription c e transcription accuracy
                 ''This is a sample transcription. Your audio has been processed successfully.''
                 0.85 5 w)
         else (Inr (), w))
      in case r of
           Inr u \<Rightarrow> w\<lparr>microphone := False\<rparr>
         | Inl err \<Rightarrow> throw err w)"

text \<open>
  \<open>mediaRecorder.stop()\<close> throws on a recorder that is not recording. The \<open>stop\<close> event and
  with it \<open>onstop\<close> follow later.
\<close>

definition stopRecording :: "component \<Rightarrow> world \<Rightarrow> world" where
  "stopRecording c w =
     (if mediaRecorderRef w \<noteq> None \<and> isRecording c then
        (case mediaRecorderRef w of
           Some Recording \<Rightarrow> setIsRecording False (w\<lparr>mediaRecorderRef := Some Inactive\<rparr>)
         | _ \<Rightarrow> throw InvalidStateError w)
      else w)"

text \<open>The callback \<open>startRecording\<close> hands to \<open>setTimeout\<close>.\<close>

definition autoStop :: "component \<Rightarrow> world \<Rightarrow> world" where
  "autoStop c w = (if isRecording c then stopRecording c w else w)"

definition startRecording :: "component \<Rightarrow> env \<Rightarrow> world \<Rightarrow> world" where
  "startRecording c e w =
     (case getUserMedia e of
        Inl err \<Rightarrow> alert ''Could not access microphone. Please check permissions.'' w
      | Inr stream \<Rightarrow>
          (let w = w\<lparr>microphone := True, mediaRecorderRef := Some Recording, audioChunksRef := []\<rparr>;
               w = setIsRecording True w
           in w\<lparr>timers := timers w @ [(30000, c)]\<rparr>))"

text \<open>A timer that fires runs its callback with the state it captured.\<close>

definition fire :: "nat \<times> component \<Rightarrow> world \<Rightarrow> world" where
  "fire timer w = autoStop (snd timer) w"

subsection \<open>Live transcription\<close>

record speechResult =
  transcript :: string
  isFinal :: bool

record speechEvent =
  resultIndex :: nat
  results :: "speechResult list"

text \<open>
  The loop of \<open>onresult\<close> over the results from \<open>resultIndex\<close> on; its local
  \<open>interimTranscript\<close> is \<open>interim\<close> here.
\<close>

fun collect :: "speechResult list \<Rightarrow> string \<times> string \<Rightarrow> string \<times> string" where
  "collect [] acc = acc"
| "collect (r # rs) (finalTranscript, interim) =
     (if isFinal r then collect rs (finalTranscript @ transcript r @ '' '', interim)
      else collect rs (finalTranscript, interim @ transcript r))"

text \<open>
  \<open>start()\<close> on the object \<open>k\<close> throws when its stream is running; \<open>stop()\<close> ends the
  stream.
\<close>

definition recognition_start :: "nat \<Rightarrow> world \<Rightarrow> error + world" where
  "recognition_start k w =
     (if running (recognizers w ! k) then Inl InvalidStateError
      else Inr (w\<lparr>recognizers := (recognizers w)[k := (recognizers w ! k)\<lparr>running := True\<rparr>]\<rparr>))"

definition recognition_stop :: "nat \<Rightarrow> world \<Rightarrow> world" where
  "recognition_stop k w =
     w\<lparr>recognizers := (recognizers w)[k := (recognizers w ! k)\<lparr>running := False\<rparr>]\<rparr>"

text \<open>
  The effect with the dependencies \<open>[language, isLiveTranscribing, autoSpeak]\<close>. Its body
  creates a new recognition object whose handlers close over the state of the render, and
  makes it \<open>recognitionRef.current\<close>; its cleanup stops \<open>recognitionRef.current\<close>. React runs
  the body after the first render, and the cleanup followed by the body after every render
  in which a dependency has changed.
\<close>

definition recognitionEffect :: "world \<Rightarrow> world" where
  "recognitionEffect w =
     (if speechRecognitionSupported w then
        w\<lparr>recognizers := recognizers w @ [\<lparr> running = False, handlers = ui w \<rparr>],
          recognitionRef := Some (length (recognizers w))\<rparr>
      else w)"

definition recognitionCleanup :: "world \<Rightarrow> world" where
  "recognitionCleanup w =
     (case recognitionRef w of None \<Rightarrow> w | Some k \<Rightarrow> recognition_stop k w)"

definition dependencies :: "component \<Rightarrow> string \<times> bool \<times> bool" where
  "dependencies c = (language c, isLiveTranscribing c, autoSpeak c)"

definition rerender :: "component \<Rightarrow> world \<Rightarrow> world" where
  "rerender previous w =
     (if dependencies (ui w) \<noteq> dependencies previous
      then recognitionEffect (recognitionCleanup w) else w)"

definition onresult :: "component \<Rightarrow> env \<Rightarrow> speechEvent \<Rightarrow> world \<Rightarrow> world" where
  "onresult c e event w =
     (let (finalTranscript, interim) =
            collect (drop (resultIndex event) (results event)) ([], [])
      in if finalTranscript \<noteq> [] then
           (let newText = trim finalTranscript;
                w = setTranscribedText (\<lambda>prev. prev @ '' '' @ newText) w;
                w = setLiveSessionText (\<lambda>prev. prev @ '' '' @ newText) w;
                w = setInterimTranscript [] w
            in if newText \<noteq> [] \<and> isLiveTranscribing c \<and> autoSpeak c
               then handleTextToSpeech c (Some newText) e w else w)
         else setInterimTranscript interim w)"

definition onerror :: "world \<Rightarrow> world" where
  "onerror w = setIsLiveTranscribing False w"

text \<open>\<open>onend\<close> starts \<open>recognitionRef.current\<close> when the flag its closure captured is set.\<close>

definition onend :: "component \<Rightarrow> world \<Rightarrow> world" where
  "onend c w =
     (if isLiveTranscribing c then
        (case recognitionRef w of
           None \<Rightarrow> throw TypeError w
         | Some k \<Rightarrow> (case recognition_start k w of Inl err \<Rightarrow> throw err w | Inr w \<Rightarrow> w))
      else w)"

text \<open>
  The events of the recognition object \<open>k\<close>: each runs the handler that object carries.
  When a stream ends it is no longer running.
\<close>

definition streamResult :: "nat \<Rightarrow> env \<Rightarrow> speechEvent \<Rightarrow> world \<Rightarrow> world" where
  "streamResult k e event w = onresult (handlers (recognizers w ! k)) e event w"

definition streamError :: "nat \<Rightarrow> world \<Rightarrow> world" where
  "streamError k w = onerror w"

definition streamEnd :: "nat \<Rightarrow> world \<Rightarrow> world" where
  "streamEnd k w = onend (handlers (recognizers w ! k)) (recognition_stop k w)"

definition startLiveTranscription :: "world \<Rightarrow> world" where
  "startLiveTranscription w =
     (case recognitionRef w of
        None \<Rightarrow>
          alert ''Speech recognition is not supported in your browser. Please use Chrome or Edge.'' w
      | Some k \<Rightarrow>
          (case recognition_start k w of
             Inl err \<Rightarrow> w
           | Inr w \<Rightarrow>
               (let w = setIsLiveTranscribing True w;
                    w = setTranscribedText (\<lambda>prev. []) w;
                    w = setInterimTranscript [] w
                in setLiveSessionText (\<lambda>prev. []) w)))"

definition stopLiveTranscription :: "world \<Rightarrow> world" where
  "stopLiveTranscription w =
     (case recognitionRef w of
        None \<Rightarrow> w
      | Some k \<Rightarrow> setIsLiveTranscribing False (recognition_stop k w))"

text \<open>A run of recognition events, each handled by \<open>onresult\<close>; the interim text after each.\<close>

fun interimTrace :: "component \<Rightarrow> env \<Rightarrow> speechEvent list \<Rightarrow> world \<Rightarrow> string list \<times> world" where
  "interimTrace c e [] w = ([], w)"
| "interimTrace c e (event # events) w =
     (let w = onresult c e event w;
          (trace, w') = interimTrace c e events w
      in (interimTranscript (ui w) # trace, w'))"

definition interimEvent :: "string \<Rightarrow> speechEvent" where
  "interimEvent s = \<lparr> resultIndex = 0, results = [\<lparr> transcript = s, isFinal = False \<rparr>] \<rparr>"

definition finalEvent :: "string \<Rightarrow> speechEvent" where
  "finalEvent s = \<lparr> resultIndex = 0, results = [\<lparr> transcript = s, isFinal = True \<rparr>] \<rparr>"

section \<open>The VoicePersonalizer component\<close>

text \<open>
  Of this component the recording flag, the recorder, the microphone and the timers are
  modelled; a timer holds the delay and the \<open>isRecording\<close> its callback captured.
\<close>

record personalizer =
  vp_isRecording :: bool
  vp_recordingError :: "string option"
  vp_mediaRecorderRef :: "recorder option"
  vp_microphone :: bool
  vp_timers :: "(nat \<times> bool) list"

definition vp_stopRecording :: "bool \<Rightarrow> personalizer \<Rightarrow> personalizer" where
  "vp_stopRecording isRecording_c v =
     (if vp_mediaRecorderRef v \<noteq> None \<and> isRecording_c
      then v\<lparr>vp_mediaRecorderRef := Some Inactive, vp_microphone := False, vp_isRecording := False\<rparr>
      else v)"

definition vp_autoStop :: "bool \<Rightarrow> personalizer \<Rightarrow> personalizer" where
  "vp_autoStop isRecording_c v = (if isRecording_c then vp_stopRecording isRecording_c v else v)"

definition vp_startRecording :: "bool \<Rightarrow> env \<Rightarrow> personalizer \<Rightarrow> personalizer" where
  "vp_startRecording isRecording_c e v =
     (case getUserMedia e of
        Inl err \<Rightarrow> v\<lparr>vp_recordingError := Some ''Microphone error''\<rparr>
      | Inr stream \<Rightarrow>
          v\<lparr>vp_microphone := True, vp_mediaRecorderRef := Some Recording, vp_isRecording := True,
            vp_timers := vp_timers v @ [(10000, isRecording_c)]\<rparr>)"

section \<open>Example histories\<close>

text \<open>
  Numbered calls for a long run of appends, two writes under one identifier, the same
  storage with a text-to-speech collection that does not parse, and a storage that holds
  other keys.
\<close>

definition entryNo :: "nat \<Rightarrow> sttCall" where
  "entryNo n = ((replicate n CHR ''i'', ''2025-01-01T00:00:00.000Z''), replicate n CHR ''w'', 0.95, ''en'', 5)"

definition ttsEntryNo :: "nat \<Rightarrow> ttsCall" where
  "ttsEntryNo n = ((replicate n CHR ''j'', ''2025-01-01T00:00:00.000Z''), replicate n CHR ''w'', ''Rachel'', ''en'', 5)"

definition firstWrite :: sttCall where
  "firstWrite = ((''id-1'', ''2025-01-01T10:00:00.000Z''), ''first take'', 0.95, ''en'', 5)"

definition secondWrite :: sttCall where
  "secondWrite = ((''id-1'', ''2025-01-01T10:00:05.000Z''), ''second take'', 0.95, ''en'', 5)"

definition doubleWrite :: storage where
  "doubleWrite = saveAllSTT [firstWrite, secondWrite] Map.empty"

definition halfReadable :: storage where
  "halfReadable = doubleWrite(''speechLab_tts_history'' \<mapsto> Text ''dark'')"

definition otherKeys :: storage where
  "otherKeys = [''speechLab_tts_history'' \<mapsto> Items [ttsItem (ttsEntryNo 1)], ''theme'' \<mapsto> Text ''dark'']"

section \<open>The first render and example inputs\<close>

text \<open>
  The state after the first render, as the \<open>useState\<close> defaults give it, in a browser with
  speech recognition and nothing stored; a live session is what \<open>startLiveTranscription\<close>
  makes of the world the effect has run in once.
\<close>

definition initialComponent :: component where
  "initialComponent = \<lparr> text_state = [], isLoading = False, transcribedText = [],
     isRecording = False, isPlaying = False, audioFile = None, isLiveTranscribing = False,
     interimTranscript = [], liveSessionText = [], backendConnected = False,
     language = ''en'', voiceModel = ''21m00Tcm4TlvDq8ikWAM'', autoSpeak = True,
     sttHistory = [], ttsHistory = [] \<rparr>"

definition initialWorld :: world where
  "initialWorld = \<lparr> ui = initialComponent, localStorage = Map.empty, mediaRecorderRef = None,
     audioChunksRef = [], microphone = False, speechRecognitionSupported = True,
     recognizers = [], recognitionRef = None, timers = [], alerts = [], requests = [],
     uncaught = [] \<rparr>"

definition liveSession :: "world \<Rightarrow> world" where
  "liveSession w = startLiveTranscription (recognitionEffect w)"

text \<open>
  An environment whose remote calls fail, the component once the health check has
  succeeded, a world in which a recording has just ended, the same world with a stored
  speech-to-text collection that does not parse, two files, and the voice personalizer
  at rest.
\<close>

definition offlineEnv :: env where
  "offlineEnv = \<lparr> stamp1 = (''id-1'', ''2025-01-01T10:00:00.000Z''),
     stamp2 = (''id-2'', ''2025-01-01T10:00:00.000Z''), random = 1 / 2,
     getUserMedia = Inr (), speechToText = Inl TransportError,
     textToSpeech = Inl TransportError, speechSynthesis = Inr () \<rparr>"

definition onlineComponent :: component where
  "onlineComponent = initialComponent\<lparr>backendConnected := True\<rparr>"

definition recordedWorld :: world where
  "recordedWorld = initialWorld\<lparr>audioChunksRef := [4096, 4096], microphone := True,
     mediaRecorderRef := Some Inactive\<rparr>"


definition hugeFile :: upload where
  "hugeFile = \<lparr> file_size = 104857601, file_type = ''audio/wav'', file_name = ''talk.wav'' \<rparr>"

definition smallFile :: upload where
  "smallFile = \<lparr> file_size = 2048, file_type = ''audio/wav'', file_name = ''talk.wav'' \<rparr>"

definition idlePersonalizer :: personalizer where
  "idlePersonalizer = \<lparr> vp_isRecording = False, vp_recordingError = None,
     vp_mediaRecorderRef = None, vp_microphone = False, vp_timers = [] \<rparr>"

text \<open>The three texts of the component.\<close>

definition texts :: "world \<Rightarrow> string \<times> string \<times> string" where
  "texts w = (transcribedText (ui w), liveSessionText (ui w), interimTranscript (ui w))"

section \<open>Properties of the WAV encoder\<close>

lemma length_le_bytes [simp]: "length (le_bytes n v) = n"
  by (induction n arbitrary: v) auto

lemma length_ascii [simp]: "length (ascii s) = length s"
  by (simp add: ascii_def)

lemma length_int16_bytes [simp]: "length (int16_bytes k) = 2"
  by (simp add: int16_bytes_def)

lemma bindE_Inr [simp]: "bindE (Inr x) f = f x"
  by (simp add: bindE_def)

lemma bindE_Inl [simp]: "bindE (Inl e) f = Inl e"
  by (simp add: bindE_def)

lemma store_seq:
  assumes "off = length pre" and "length bs \<le> k"
  shows "store (pre @ replicate k 0) off bs = Inr ((pre @ bs) @ replicate (k - length bs) 0)"
  using assms by (simp add: store_def)

lemma store_seq0:
  assumes "length bs \<le> k"
  shows "store (replicate k 0) 0 bs = Inr (bs @ replicate (k - length bs) 0)"
  using store_seq [of 0 "[]" bs k] assms by simp

lemma writeString_seq:
  assumes "off = length pre" and "length s \<le> k"
  shows "writeString (pre @ replicate k 0) off s = Inr ((pre @ ascii s) @ replicate (k - length s) 0)"
  using assms
proof (induction s arbitrary: pre off k)
  case Nil
  then show ?case by (simp add: ascii_def)
next
  case (Cons c cs)
  from Cons.prems obtain k' where k: "k = Suc k'" by (cases k) auto
  have step: "setUint8 (pre @ replicate k 0) off (of_char c)
      = Inr ((pre @ le_bytes 1 (of_char c)) @ replicate k' 0)"
    unfolding setUint8_def using store_seq [of off pre "le_bytes 1 (of_char c)" k] Cons.prems k
    by simp
  have rest: "writeString ((pre @ le_bytes 1 (of_char c)) @ replicate k' 0) (Suc off) cs
      = Inr (((pre @ le_bytes 1 (of_char c)) @ ascii cs) @ replicate (k' - length cs) 0)"
    using Cons.prems k by (intro Cons.IH) auto
  show ?case
    using step rest k by (simp add: ascii_def)
qed

lemma writeString_seq0:
  assumes "length s \<le> k"
  shows "writeString (replicate k 0) 0 s = Inr (ascii s @ replicate (k - length s) 0)"
  using writeString_seq [of 0 "[]" s k] assms by simp

lemma writeFrame_seq:
  assumes "off = length pre" and "2 * length chs \<le> k"
  shows "writeFrame audio i chs (pre @ replicate k 0, off)
     = Inr ((pre @ concat (map (\<lambda>ch. int16_bytes (quantize (sampleAt audio ch i))) chs))
              @ replicate (k - 2 * length chs) 0, off + 2 * length chs)"
  using assms
proof (induction chs arbitrary: pre off k)
  case Nil
  then show ?case by simp
next
  case (Cons ch chs)
  let ?b = "int16_bytes (quantize (sampleAt audio ch i))"
  have step: "setInt16 (pre @ replicate k 0) off (scaleSample (clampSample (sampleAt audio ch i)))
      = Inr ((pre @ ?b) @ replicate (k - 2) 0)"
    unfolding setInt16_def quantize_def [symmetric]
    using store_seq [of off pre ?b k] Cons.prems by simp
  have rest: "writeFrame audio i chs ((pre @ ?b) @ replicate (k - 2) 0, off + 2)
      = Inr (((pre @ ?b) @ concat (map (\<lambda>ch. int16_bytes (quantize (sampleAt audio ch i))) chs))
              @ replicate (k - 2 - 2 * length chs) 0, off + 2 + 2 * length chs)"
    using Cons.prems by (intro Cons.IH) auto
  show ?case
    using step rest by simp
qed

lemma length_frameData [simp]: "length (frameData audio i) = 2 * numberOfChannels audio"
proof -
  have "length (concat (map (\<lambda>ch. int16_bytes (quantize (sampleAt audio ch i))) chs)) = 2 * length chs" for chs
    by (induction chs) auto
  then show ?thesis by (simp add: frameData_def)
qed

lemma writeFrames_seq:
  assumes "off = length pre" and "length js * (2 * numberOfChannels audio) \<le> k"
  shows "writeFrames audio js (pre @ replicate k 0, off)
     = Inr ((pre @ concat (map (frameData audio) js))
              @ replicate (k - length js * (2 * numberOfChannels audio)) 0,
            off + length js * (2 * numberOfChannels audio))"
  using assms
proof (induction js arbitrary: pre off k)
  case Nil
  then show ?case by simp
next
  case (Cons j js)
  let ?m = "numberOfChannels audio"
  have step: "writeFrame audio j [0 ..< ?m] (pre @ replicate k 0, off)
      = Inr ((pre @ frameData audio j) @ replicate (k - 2 * ?m) 0, off + 2 * ?m)"
    using writeFrame_seq [of off pre "[0 ..< ?m]" k audio j] Cons.prems
    by (simp add: frameData_def)
  have rest: "writeFrames audio js ((pre @ frameData audio j) @ replicate (k - 2 * ?m) 0, off + 2 * ?m)
      = Inr (((pre @ frameData audio j) @ concat (map (frameData audio) js))
              @ replicate (k - 2 * ?m - length js * (2 * ?m)) 0,
             off + 2 * ?m + length js * (2 * ?m))"
    using Cons.prems by (intro Cons.IH) auto
  show ?case
    using step rest by (simp add: algebra_simps)
qed

lemma encodeWAV_eq:
  assumes "44 + frames audio * numberOfChannels audio * 2 \<le> maxByteLength"
  shows "encodeWAV maxByteLength audio = Inr (wavHeader audio @ pcmData audio)"
proof -
  have a: "ArrayBuffer maxByteLength (44 + frames audio * (numberOfChannels audio * 2))
      = Inr (replicate (44 + frames audio * (numberOfChannels audio * 2)) 0)"
    using assms by (simp add: ArrayBuffer_def mult.assoc)
  show ?thesis
    unfolding encodeWAV_def Let_def setUint32_def setUint16_def
    apply (simp add: a writeString_seq0 writeString_seq store_seq writeFrames_seq
        del: append_assoc writeString.simps)
    apply (simp add: wavHeader_def pcmData_def Let_def)
    done
qed

lemma encodeWAV_too_large:
  assumes "maxByteLength < 44 + frames audio * numberOfChannels audio * 2"
  shows "encodeWAV maxByteLength audio = Inl RangeError"
  using assms by (simp add: encodeWAV_def Let_def ArrayBuffer_def mult.assoc)

lemma unat_byte_of_nat: "unat (of_nat n :: byte) = n mod 256"
  by (simp add: unat_of_nat)

lemma le16: "(v::nat) mod 256 + 256 * (v div 256 mod 256) = v mod 65536"
proof -
  have "v mod (256 * 256) = 256 * (v div 256 mod 256) + v mod 256"
    by (rule mod_mult2_eq)
  then show ?thesis by simp
qed

lemma le_bytes_2: "le_bytes 2 v = [of_nat (v mod 256), of_nat (v div 256 mod 256)]"
    by (simp add: numeral_2_eq_2)

lemma le32: "(v::nat) mod 256 + 256 * (v div 256 mod 256) + 65536 * (v div 65536 mod 256)
        + 16777216 * (v div 16777216 mod 256) = v mod 4294967296"
proof -
  have a: "v mod (65536 * 65536) = 65536 * (v div 65536 mod 65536) + v mod 65536"
    by (rule mod_mult2_eq)
  have b: "v div 65536 mod 65536 = (v div 65536) mod 256 + 256 * (v div 65536 div 256 mod 256)"
    using le16 [of "v div 65536"] by simp
  have c: "v div 65536 div 256 = v div 16777216"
    by (simp add: div_mult2_eq [symmetric])
  show ?thesis using a b c le16 [of v] by simp
qed

lemma le_bytes_4: "le_bytes 4 v = [of_nat (v mod 256), of_nat (v div 256 mod 256),
      of_nat (v div 65536 mod 256), of_nat (v div 16777216 mod 256)]"
proof -
  have "v div 256 div 256 = v div 65536" "v div 256 div 256 div 256 = v div 16777216"
    by (simp_all add: div_mult2_eq [symmetric])
  moreover have "(4::nat) = Suc (Suc (Suc (Suc 0)))" by simp
  ultimately show ?thesis by (simp only: le_bytes.simps)
qed

lemma getUint16_le: "getUint16 (pre @ le_bytes 2 v @ post) (length pre) = v mod 65536"
  by (simp add: getUint16_def le_bytes_2 nth_append unat_byte_of_nat le16)

lemma getUint32_le: "getUint32 (pre @ le_bytes 4 v @ post) (length pre) = v mod 4294967296"
  by (simp add: getUint32_def le_bytes_4 nth_append unat_byte_of_nat le32)

lemma slice_at: "n = length b \<Longrightarrow> k = length a \<Longrightarrow> take n (drop k (a @ b @ c)) = b"
  by simp

lemma length_wavHeader [simp]: "length (wavHeader audio) = 44"
  by (simp add: wavHeader_def Let_def)

lemma length_pcmData [simp]:
  "length (pcmData audio) = frames audio * numberOfChannels audio * 2"
proof -
  have "length (concat (map (frameData audio) js)) = length js * (2 * numberOfChannels audio)" for js
    by (induction js) auto
  then show ?thesis by (simp add: pcmData_def)
qed

lemma header_fields:
  fixes audio :: audioBuffer and rest :: "byte list"
  defines "m \<equiv> numberOfChannels audio" and "r \<equiv> sampleRate audio"
  defines "bytes \<equiv> wavHeader audio @ rest"
  shows "take 4 bytes = ascii ''RIFF''"
    and "take 4 (drop 8 bytes) = ascii ''WAVE''"
    and "take 4 (drop 12 bytes) = ascii ''fmt ''"
    and "take 4 (drop 36 bytes) = ascii ''data''"
    and "getUint16 bytes 20 = 1"
    and "getUint16 bytes 22 = m mod 65536"
    and "getUint32 bytes 24 = r mod 4294967296"
    and "getUint32 bytes 28 = (r * (m * 2)) mod 4294967296"
    and "getUint16 bytes 32 = (m * 2) mod 65536"
    and "getUint16 bytes 34 = 16"
proof -
  let ?n = "frames audio"
  let ?a = "ascii ''RIFF''" and ?b = "le_bytes 4 (36 + ?n * (m * 2))" and ?c = "ascii ''WAVE''"
  let ?d = "ascii ''fmt ''" and ?e = "le_bytes 4 16" and ?f = "le_bytes 2 1"
  let ?g = "le_bytes 2 m" and ?h = "le_bytes 4 r" and ?i = "le_bytes 4 (r * (m * 2))"
  let ?j = "le_bytes 2 (m * 2)" and ?k = "le_bytes 2 16" and ?l = "ascii ''data''"
  let ?z = "le_bytes 4 (?n * (m * 2)) @ rest"
  have b: "bytes = ?a @ ?b @ ?c @ ?d @ ?e @ ?f @ ?g @ ?h @ ?i @ ?j @ ?k @ ?l @ ?z"
    by (simp add: bytes_def wavHeader_def Let_def m_def r_def)
  show "take 4 bytes = ascii ''RIFF''"
    unfolding b using slice_at [of 4 ?a 0 "[]"] by simp
  show "take 4 (drop 8 bytes) = ascii ''WAVE''"
    unfolding b using slice_at [of 4 ?c 8 "?a @ ?b"] by simp
  show "take 4 (drop 12 bytes) = ascii ''fmt ''"
    unfolding b using slice_at [of 4 ?d 12 "?a @ ?b @ ?c"] by simp
  show "take 4 (drop 36 bytes) = ascii ''data''"
    unfolding b using slice_at [of 4 ?l 36 "?a @ ?b @ ?c @ ?d @ ?e @ ?f @ ?g @ ?h @ ?i @ ?j @ ?k" ?z]
    by simp
  show "getUint16 bytes 20 = 1"
    unfolding b using getUint16_le [of "?a @ ?b @ ?c @ ?d @ ?e" 1] by simp
  show "getUint16 bytes 22 = m mod 65536"
    unfolding b using getUint16_le [of "?a @ ?b @ ?c @ ?d @ ?e @ ?f" m] by simp
  show "getUint32 bytes 24 = r mod 4294967296"
    unfolding b using getUint32_le [of "?a @ ?b @ ?c @ ?d @ ?e @ ?f @ ?g" r] by simp
  show "getUint32 bytes 28 = (r * (m * 2)) mod 4294967296"
    unfolding b using getUint32_le [of "?a @ ?b @ ?c @ ?d @ ?e @ ?f @ ?g @ ?h" "r * (m * 2)"] by simp
  show "getUint16 bytes 32 = (m * 2) mod 65536"
    unfolding b using getUint16_le [of "?a @ ?b @ ?c @ ?d @ ?e @ ?f @ ?g @ ?h @ ?i" "m * 2"] by simp
  show "getUint16 bytes 34 = 16"
    unfolding b using getUint16_le [of "?a @ ?b @ ?c @ ?d @ ?e @ ?f @ ?g @ ?h @ ?i @ ?j" 16] by simp
qed

lemma wrapInt16_id: "- 32768 \<le> k \<Longrightarrow> k \<le> 32767 \<Longrightarrow> wrapInt16 k = k"
  unfolding wrapInt16_def Let_def
proof (cases "0 \<le> k")
  case True
  assume "k \<le> 32767"
  with True have "k mod 65536 = k" by simp
  with \<open>k \<le> 32767\<close> show "(if 32768 \<le> k mod 65536 then k mod 65536 - 65536 else k mod 65536) = k"
    by simp
next
  case False
  assume "- 32768 \<le> k"
  with False have "(k + 65536) mod 65536 = k + 65536" by (intro mod_pos_pos_trivial) auto
  then have "k mod 65536 = k + 65536" by simp
  with \<open>- 32768 \<le> k\<close> show "(if 32768 \<le> k mod 65536 then k mod 65536 - 65536 else k mod 65536) = k"
    by simp
qed

lemma wrapInt16_range: "- 32768 \<le> wrapInt16 k \<and> wrapInt16 k \<le> 32767"
proof -
  have "0 \<le> k mod 65536" "k mod 65536 < 65536" by simp_all
  then show ?thesis unfolding wrapInt16_def Let_def by auto
qed

lemma quantize_range: "- 32768 \<le> quantize x \<and> quantize x \<le> 32767"
proof (cases "scaleSample (clampSample x)")
  case (Fin y)
  then show ?thesis using wrapInt16_range by (simp add: quantize_def)
qed (simp_all add: quantize_def)

lemma ToInteger_scaled_range:
  assumes "- 1 \<le> s" and "s \<le> 1"
  shows "- 32768 \<le> ToInteger (if s < 0 then s * 32768 else s * 32767)
       \<and> ToInteger (if s < 0 then s * 32768 else s * 32767) \<le> 32767"
proof (cases "s < 0")
  case True
  have "- 32768 \<le> s * 32768" "s * 32768 < 0" using assms True by auto
  then have "- 32768 \<le> \<lceil>s * 32768\<rceil>" "\<lceil>s * 32768\<rceil> \<le> 0"
    by (simp_all add: le_ceiling_iff ceiling_le_iff)
  then show ?thesis using True by (simp add: ToInteger_def)
next
  case False
  have "0 \<le> s * 32767" "s * 32767 \<le> 32767" using assms False by auto
  then have "0 \<le> \<lfloor>s * 32767\<rfloor>" "\<lfloor>s * 32767\<rfloor> \<le> 32767"
    by (simp_all add: le_floor_iff floor_le_iff)
  then show ?thesis using False by (simp add: ToInteger_def)
qed

lemma quantize_Fin:
  "quantize (Fin x) =
     ToInteger (let s = max (- 1) (min 1 x) in if s < 0 then s * 32768 else s * 32767)"
proof -
  let ?s = "max (- 1) (min 1 x)"
  have r: "- 1 \<le> ?s" "?s \<le> 1" by auto
  have c: "clampSample (Fin x) = Fin ?s"
    by (simp add: clampSample_def)
  have "scaleSample (Fin y) = Fin (if y < 0 then y * 32768 else y * 32767)" for y
    by (simp add: scaleSample_def)
  then have "quantize (Fin x) = wrapInt16 (ToInteger (if ?s < 0 then ?s * 32768 else ?s * 32767))"
    unfolding quantize_def c by simp
  also have "\<dots> = ToInteger (if ?s < 0 then ?s * 32768 else ?s * 32767)"
    using ToInteger_scaled_range [OF r] by (intro wrapInt16_id) auto
  finally show ?thesis by (simp add: Let_def)
qed

lemma quantize_values:
  "quantize (Fin 1) = 32767" "quantize (Fin (- 1)) = - 32768" "quantize (Fin 0) = 0"
  "quantize PosInf = 32767" "quantize NegInf = - 32768" "quantize NaN = 0"
  by (simp_all add: quantize_Fin ToInteger_def)
     (simp_all add: quantize_def clampSample_def scaleSample_def ToInteger_def wrapInt16_def)

lemma quantize_above: "1 < x \<Longrightarrow> quantize (Fin x) = 32767"
  by (simp add: quantize_Fin ToInteger_def)

lemma quantize_below: "x < - 1 \<Longrightarrow> quantize (Fin x) = - 32768"
  by (simp add: quantize_Fin ToInteger_def)

lemma getInt16_stored:
  assumes "- 32768 \<le> k" and "k \<le> 32767"
  shows "getInt16 (pre @ int16_bytes k @ post) (length pre) = k"
proof -
  have "getUint16 (pre @ int16_bytes k @ post) (length pre) = nat (k mod 65536) mod 65536"
    unfolding int16_bytes_def by (rule getUint16_le)
  also have "\<dots> = nat (k mod 65536)"
    by (simp add: nat_mod_distrib)
  finally have "getInt16 (pre @ int16_bytes k @ post) (length pre) = wrapInt16 (k mod 65536)"
    by (simp add: getInt16_def)
  also have "\<dots> = wrapInt16 k" by (simp add: wrapInt16_def)
  also have "\<dots> = k" using assms by (rule wrapInt16_id)
  finally show ?thesis .
qed

lemma concat_blocks_split:
  assumes "k < length xs"
  shows "concat (map f xs) = concat (map f (take k xs)) @ f (xs ! k) @ concat (map f (drop (Suc k) xs))"
proof -
  have "xs = take k xs @ xs ! k # drop (Suc k) xs" using assms by (rule id_take_nth_drop)
  then have "concat (map f xs) = concat (map f (take k xs @ xs ! k # drop (Suc k) xs))" by simp
  then show ?thesis by simp
qed

lemma length_concat_blocks:
  "(\<And>x. length (f x) = n) \<Longrightarrow> length (concat (map f xs)) = length xs * n"
  by (induction xs) auto

lemma pcmData_sample:
  assumes "i < frames audio" and "c < numberOfChannels audio"
  shows "\<exists>pre post. pcmData audio = pre @ int16_bytes (quantize (sampleAt audio c i)) @ post
     \<and> length pre = 2 * (i * numberOfChannels audio + c)"
proof -
  let ?m = "numberOfChannels audio"
  let ?g = "\<lambda>channel. int16_bytes (quantize (sampleAt audio channel i))"
  let ?A = "concat (map (frameData audio) (take i [0 ..< frames audio]))"
  let ?Z = "concat (map (frameData audio) (drop (Suc i) [0 ..< frames audio]))"
  let ?a = "concat (map ?g (take c [0 ..< ?m]))"
  let ?z = "concat (map ?g (drop (Suc c) [0 ..< ?m]))"
  have "pcmData audio = ?A @ frameData audio i @ ?Z"
    unfolding pcmData_def using concat_blocks_split [of i "[0 ..< frames audio]" "frameData audio"] assms(1)
    by simp
  moreover have "frameData audio i = ?a @ ?g c @ ?z"
    unfolding frameData_def using concat_blocks_split [of c "[0 ..< ?m]" ?g] assms(2)
    by simp
  ultimately have "pcmData audio = (?A @ ?a) @ ?g c @ (?z @ ?Z)" by simp
  moreover have "length ?A = i * (2 * ?m)"
    using length_concat_blocks [of "frameData audio" "2 * ?m" "take i [0 ..< frames audio]"] assms(1)
    by simp
  moreover have "length ?a = c * 2"
    using length_concat_blocks [of ?g 2 "take c [0 ..< ?m]"] assms(2) by simp
  ultimately have "pcmData audio = (?A @ ?a) @ ?g c @ (?z @ ?Z)
      \<and> length (?A @ ?a) = 2 * (i * ?m + c)"
    by (simp add: algebra_simps)
  then show ?thesis by blast
qed

lemma quantize_spec: "quantize x = spec_sample x"
proof (cases x)
  case (Fin r)
  have "quantize (Fin r) = spec_pcm16 r"
    unfolding quantize_Fin spec_pcm16_def Let_def ToInteger_def by simp
  then show ?thesis using Fin by simp
qed (simp_all add: quantize_values)

lemma decoded_sample:
  assumes "decoded audio" and "i < frames audio" and "c < numberOfChannels audio"
  shows "sampleAt audio c i = getChannelData audio c ! i"
proof -
  have "length (getChannelData audio c) = frames audio"
    using assms(1,3) by (simp add: decoded_def list_all_iff)
  then show ?thesis using assms(2) by (simp add: sampleAt_def)
qed

lemma encodeWAV_sample:
  assumes "44 + frames audio * numberOfChannels audio * 2 \<le> maxByteLength"
    and "decoded audio" and "i < frames audio" and "c < numberOfChannels audio"
  shows "getInt16 (wavHeader audio @ pcmData audio) (44 + 2 * (i * numberOfChannels audio + c))
     = spec_sample (getChannelData audio c ! i)"
proof -
  from pcmData_sample [OF assms(3,4)] obtain pre post where
    p: "pcmData audio = pre @ int16_bytes (quantize (sampleAt audio c i)) @ post"
    and l: "length pre = 2 * (i * numberOfChannels audio + c)"
    by blast
  let ?q = "quantize (sampleAt audio c i)"
  have "getInt16 ((wavHeader audio @ pre) @ int16_bytes ?q @ post) (length (wavHeader audio @ pre)) = ?q"
    using quantize_range [of "sampleAt audio c i"] by (intro getInt16_stored) auto
  then have "getInt16 (wavHeader audio @ pcmData audio) (44 + 2 * (i * numberOfChannels audio + c)) = ?q"
    using p l by simp
  then show ?thesis
    unfolding decoded_sample [OF assms(2-4)] quantize_spec .
qed

lemma spec_pcm16_values:
  "spec_pcm16 1 = 32767" "spec_pcm16 (- 1) = - 32768" "spec_pcm16 0 = 0"
  "1 < x \<Longrightarrow> spec_pcm16 x = 32767" "x < - 1 \<Longrightarrow> spec_pcm16 x = - 32768"
  by (simp_all add: spec_pcm16_def)

text \<open>
  Claim C1. For a decoded audio buffer with \<open>M\<close> channels, \<open>N\<close> frames per channel and
  sample rate \<open>R\<close>, \<open>encodeWAV\<close> returns a buffer of exactly \<open>44 + N*M*2\<close> bytes with the
  tags \<open>RIFF\<close>, \<open>WAVE\<close>, \<open>fmt \<close> and \<open>data\<close> at offsets 0, 8, 12 and 36, the little-endian
  fields audio format 1 at offset 20, channel count \<open>M\<close> at 22, sample rate \<open>R\<close> at 24, byte
  rate \<open>R*M*2\<close> at 28, block align \<open>M*2\<close> at 32 and bits per sample 16 at 34, and after them
  the \<open>N*M\<close> samples as 16-bit little-endian values: the sample of channel \<open>c\<close> in frame \<open>i\<close>
  at offset \<open>44 + 2 * (i*M + c)\<close>. A decoded buffer is one whose channels hold \<open>N\<close> samples
  each, whose values fit the 16-bit and 32-bit header fields, and for which the browser
  creates a buffer of \<open>44 + N*M*2\<close> bytes.
\<close>

theorem encodeWAV_layout:
  assumes "decoded audio"
    and "44 + frames audio * numberOfChannels audio * 2 \<le> maxByteLength"
    and "numberOfChannels audio * 2 < 2 ^ 16"
    and "sampleRate audio < 2 ^ 32"
    and "sampleRate audio * numberOfChannels audio * 2 < 2 ^ 32"
  shows "\<exists>bytes. encodeWAV maxByteLength audio = Inr bytes
     \<and> length bytes = 44 + frames audio * numberOfChannels audio * 2
     \<and> take 4 bytes = ascii ''RIFF''
     \<and> take 4 (drop 8 bytes) = ascii ''WAVE''
     \<and> take 4 (drop 12 bytes) = ascii ''fmt ''
     \<and> take 4 (drop 36 bytes) = ascii ''data''
     \<and> getUint16 bytes 20 = 1
     \<and> getUint16 bytes 22 = numberOfChannels audio
     \<and> getUint32 bytes 24 = sampleRate audio
     \<and> getUint32 bytes 28 = sampleRate audio * numberOfChannels audio * 2
     \<and> getUint16 bytes 32 = numberOfChannels audio * 2
     \<and> getUint16 bytes 34 = 16
     \<and> (\<forall>i c. i < frames audio \<longrightarrow> c < numberOfChannels audio \<longrightarrow>
           getInt16 bytes (44 + 2 * (i * numberOfChannels audio + c))
             = spec_sample (getChannelData audio c ! i))"
proof -
  let ?bytes = "wavHeader audio @ pcmData audio"
  let ?m = "numberOfChannels audio" and ?r = "sampleRate audio"
  note h = header_fields [of audio "pcmData audio"]
  have e: "encodeWAV maxByteLength audio = Inr ?bytes" using assms(2) by (rule encodeWAV_eq)
  have l: "length ?bytes = 44 + frames audio * ?m * 2" by simp
  have f: "getUint16 ?bytes 22 = ?m" "getUint32 ?bytes 24 = ?r"
    "getUint32 ?bytes 28 = ?r * ?m * 2" "getUint16 ?bytes 32 = ?m * 2"
    using h(6-9) assms(3-5) by (simp_all add: mult.assoc)
  have s: "\<forall>i c. i < frames audio \<longrightarrow> c < ?m \<longrightarrow>
      getInt16 ?bytes (44 + 2 * (i * ?m + c)) = spec_sample (getChannelData audio c ! i)"
    using encodeWAV_sample [OF assms(2,1)] by blast
  show ?thesis
    using e l f s h(1-5,10) by blast
qed

lemma monoTake_bytes:
  "wavHeader monoTake @ pcmData monoTake =
     [82, 73, 70, 70, 40, 0, 0, 0, 87, 65, 86, 69, 102, 109, 116, 32, 16, 0, 0, 0, 1, 0, 1, 0,
      128, 62, 0, 0, 0, 125, 0, 0, 2, 0, 16, 0, 100, 97, 116, 97, 4, 0, 0, 0,
      255, 127, 0, 128]"
proof -
  have two: "[0 ..< 2] = [0, 1]" "[0 ..< 1] = [0]"
    by (simp_all add: upt_rec)
  have f: "frames monoTake = 2" "numberOfChannels monoTake = 1" "sampleRate monoTake = 16000"
    by (simp_all add: monoTake_def)
  have q: "quantize (sampleAt monoTake 0 0) = 32767"
    "quantize (sampleAt monoTake 0 (Suc 0)) = - 32768"
    by (simp_all add: sampleAt_def monoTake_def quantize_values)
  have p: "pcmData monoTake = [255, 127, 0, 128]"
    by (simp add: pcmData_def frameData_def f two q int16_bytes_def le_bytes_2)
  have h: "wavHeader monoTake =
     [82, 73, 70, 70, 40, 0, 0, 0, 87, 65, 86, 69, 102, 109, 116, 32, 16, 0, 0, 0, 1, 0, 1, 0,
      128, 62, 0, 0, 0, 125, 0, 0, 2, 0, 16, 0, 100, 97, 116, 97, 4, 0, 0, 0]"
    by (simp add: wavHeader_def f Let_def ascii_def le_bytes_2 le_bytes_4)
  show ?thesis unfolding p h by simp
qed

theorem encodeWAV_layout_witness:
  "decoded monoTake \<and> 44 + frames monoTake * numberOfChannels monoTake * 2 \<le> 2147483647
   \<and> numberOfChannels monoTake * 2 < 2 ^ 16 \<and> sampleRate monoTake < 2 ^ 32
   \<and> sampleRate monoTake * numberOfChannels monoTake * 2 < 2 ^ 32
   \<and> (\<exists>bytes. encodeWAV 2147483647 monoTake = Inr bytes \<and> length bytes = 48
        \<and> getUint16 bytes 22 = 1 \<and> getUint32 bytes 24 = 16000
        \<and> getUint32 bytes 28 = 32000 \<and> getUint16 bytes 32 = 2
        \<and> getInt16 bytes 44 = 32767 \<and> getInt16 bytes 46 = - 32768
        \<and> drop 44 bytes = [255, 127, 0, 128])"
proof -
  have h: "decoded monoTake" "44 + frames monoTake * numberOfChannels monoTake * 2 \<le> 2147483647"
    "numberOfChannels monoTake * 2 < 2 ^ 16" "sampleRate monoTake < 2 ^ 32"
    "sampleRate monoTake * numberOfChannels monoTake * 2 < 2 ^ 32"
    by (simp_all add: monoTake_def decoded_def)
  have v: "frames monoTake = 2" "numberOfChannels monoTake = 1" "sampleRate monoTake = 16000"
    "getChannelData monoTake 0 ! 0 = Fin 1" "getChannelData monoTake 0 ! Suc 0 = Fin (- 1)"
    by (simp_all add: monoTake_def)
  from encodeWAV_layout [OF h] obtain bytes where
    b: "encodeWAV 2147483647 monoTake = Inr bytes"
    "length bytes = 44 + frames monoTake * numberOfChannels monoTake * 2"
    "getUint16 bytes 22 = numberOfChannels monoTake"
    "getUint32 bytes 24 = sampleRate monoTake"
    "getUint32 bytes 28 = sampleRate monoTake * numberOfChannels monoTake * 2"
    "getUint16 bytes 32 = numberOfChannels monoTake * 2"
    and s: "\<forall>i c. i < frames monoTake \<longrightarrow> c < numberOfChannels monoTake \<longrightarrow>
           getInt16 bytes (44 + 2 * (i * numberOfChannels monoTake + c))
             = spec_sample (getChannelData monoTake c ! i)"
    by blast
  have "getInt16 bytes (44 + 2 * (0 * numberOfChannels monoTake + 0))
      = spec_sample (getChannelData monoTake 0 ! 0)"
    "getInt16 bytes (44 + 2 * (1 * numberOfChannels monoTake + 0))
      = spec_sample (getChannelData monoTake 0 ! 1)"
    using s [rule_format, of 0 0] s [rule_format, of 1 0] by (simp_all add: v(1,2))
  then have g: "getInt16 bytes 44 = 32767" "getInt16 bytes 46 = - 32768"
    by (simp_all add: v spec_pcm16_values)
  have "bytes = wavHeader monoTake @ pcmData monoTake"
    using b(1) encodeWAV_eq [OF h(2)] by simp
  then have d: "drop 44 bytes = [255, 127, 0, 128]"
    unfolding monoTake_bytes by simp
  have "encodeWAV 2147483647 monoTake = Inr bytes \<and> length bytes = 48
        \<and> getUint16 bytes 22 = 1 \<and> getUint32 bytes 24 = 16000
        \<and> getUint32 bytes 28 = 32000 \<and> getUint16 bytes 32 = 2
        \<and> getInt16 bytes 44 = 32767 \<and> getInt16 bytes 46 = - 32768
        \<and> drop 44 bytes = [255, 127, 0, 128]"
    using b g d by (simp add: v)
  then show ?thesis using h by blast
qed

text \<open>
  Claim C2. For every sample of a decoded buffer, the 16-bit value \<open>encodeWAV\<close> stores at
  the sample's place is the sample clamped to \<open>[-1, 1]\<close> and then scaled by \<open>0x8000\<close> when
  negative and by \<open>0x7FFF\<close> otherwise: an input sample \<open>1.0\<close> is stored as \<open>0x7FFF\<close>, \<open>-1.0\<close>
  as \<open>-0x8000\<close>, \<open>0.0\<close> as 0, and an input above 1 or below -1, the infinities included, as
  \<open>1.0\<close> or \<open>-1.0\<close> is. The sample is the element \<open>i\<close> of the channel's array.
\<close>

theorem encodeWAV_quantization:
  assumes "decoded audio"
    and "44 + frames audio * numberOfChannels audio * 2 \<le> maxByteLength"
    and "i < frames audio" and "c < numberOfChannels audio"
  shows "\<exists>bytes. encodeWAV maxByteLength audio = Inr bytes
     \<and> (\<forall>x. getChannelData audio c ! i = Fin x \<longrightarrow>
           getInt16 bytes (44 + 2 * (i * numberOfChannels audio + c))
             = (let s = max (- 1) (min 1 x)
                in if s < 0 then \<lceil>s * 32768\<rceil> else \<lfloor>s * 32767\<rfloor>))
     \<and> (getChannelData audio c ! i = Fin 1 \<longrightarrow>
           getInt16 bytes (44 + 2 * (i * numberOfChannels audio + c)) = 32767)
     \<and> (getChannelData audio c ! i = Fin (- 1) \<longrightarrow>
           getInt16 bytes (44 + 2 * (i * numberOfChannels audio + c)) = - 32768)
     \<and> (getChannelData audio c ! i = Fin 0 \<longrightarrow>
           getInt16 bytes (44 + 2 * (i * numberOfChannels audio + c)) = 0)
     \<and> (\<forall>x. getChannelData audio c ! i = Fin x \<and> 1 < x \<longrightarrow>
           getInt16 bytes (44 + 2 * (i * numberOfChannels audio + c)) = 32767)
     \<and> (\<forall>x. getChannelData audio c ! i = Fin x \<and> x < - 1 \<longrightarrow>
           getInt16 bytes (44 + 2 * (i * numberOfChannels audio + c)) = - 32768)
     \<and> (getChannelData audio c ! i = PosInf \<longrightarrow>
           getInt16 bytes (44 + 2 * (i * numberOfChannels audio + c)) = 32767)
     \<and> (getChannelData audio c ! i = NegInf \<longrightarrow>
           getInt16 bytes (44 + 2 * (i * numberOfChannels audio + c)) = - 32768)"
proof -
  let ?bytes = "wavHeader audio @ pcmData audio"
  let ?pos = "44 + 2 * (i * numberOfChannels audio + c)"
  have e: "encodeWAV maxByteLength audio = Inr ?bytes" using assms(2) by (rule encodeWAV_eq)
  have s: "getInt16 ?bytes ?pos = spec_sample (getChannelData audio c ! i)"
    using assms by (intro encodeWAV_sample)
  have a: "getInt16 ?bytes ?pos
      = (let s = max (- 1) (min 1 x) in if s < 0 then \<lceil>s * 32768\<rceil> else \<lfloor>s * 32767\<rfloor>)"
    if "getChannelData audio c ! i = Fin x" for x
    unfolding s that by (simp add: spec_pcm16_def)
  have b: "getInt16 ?bytes ?pos = 32767" if "getChannelData audio c ! i = Fin 1"
    unfolding s that by (simp add: spec_pcm16_values)
  have c: "getInt16 ?bytes ?pos = - 32768" if "getChannelData audio c ! i = Fin (- 1)"
    unfolding s that by (simp add: spec_pcm16_values)
  have d: "getInt16 ?bytes ?pos = 0" if "getChannelData audio c ! i = Fin 0"
    unfolding s that by (simp add: spec_pcm16_values)
  have f: "getInt16 ?bytes ?pos = 32767" if "getChannelData audio c ! i = Fin x \<and> 1 < x" for x
    unfolding s using that by (simp add: spec_pcm16_values)
  have g: "getInt16 ?bytes ?pos = - 32768" if "getChannelData audio c ! i = Fin x \<and> x < - 1" for x
    unfolding s using that by (simp add: spec_pcm16_values)
  have p: "getInt16 ?bytes ?pos = 32767" if "getChannelData audio c ! i = PosInf"
    unfolding s that by simp
  have n: "getInt16 ?bytes ?pos = - 32768" if "getChannelData audio c ! i = NegInf"
    unfolding s that by simp
  show ?thesis
    using e a b c d f g p n by blast
qed

theorem encodeWAV_quantization_witness:
  "decoded stereoTake \<and> 44 + frames stereoTake * numberOfChannels stereoTake * 2 \<le> 2147483647
   \<and> 1 < frames stereoTake \<and> 1 < numberOfChannels stereoTake
   \<and> getChannelData stereoTake 0 ! 1 = Fin 1 \<and> getChannelData stereoTake 1 ! 1 = Fin 2
   \<and> getChannelData stereoTake 0 ! 0 = Fin 0 \<and> getChannelData stereoTake 1 ! 0 = Fin (- 1)
   \<and> (\<exists>bytes. encodeWAV 2147483647 stereoTake = Inr bytes
         \<and> getInt16 bytes 44 = 0 \<and> getInt16 bytes 46 = - 32768
         \<and> getInt16 bytes 48 = 32767 \<and> getInt16 bytes 50 = 32767)"
proof -
  have h: "decoded stereoTake" "44 + frames stereoTake * numberOfChannels stereoTake * 2 \<le> 2147483647"
    by (simp_all add: stereoTake_def decoded_def upt_rec)
  have r: "0 < frames stereoTake" "1 < frames stereoTake"
    "0 < numberOfChannels stereoTake" "1 < numberOfChannels stereoTake"
    by (simp_all add: stereoTake_def)
  have v: "getChannelData stereoTake 0 ! 1 = Fin 1" "getChannelData stereoTake 1 ! 1 = Fin 2"
    "getChannelData stereoTake 0 ! 0 = Fin 0" "getChannelData stereoTake 1 ! 0 = Fin (- 1)"
    by (simp_all add: stereoTake_def)
  have m: "numberOfChannels stereoTake = 2" by (simp add: stereoTake_def)
  from encodeWAV_quantization [OF h r(1) r(3)] v(3) obtain b0 where
    b0: "encodeWAV 2147483647 stereoTake = Inr b0" "getInt16 b0 44 = 0"
    by (auto simp: m)
  from encodeWAV_quantization [OF h r(1) r(4)] v(4) obtain b1 where
    b1: "encodeWAV 2147483647 stereoTake = Inr b1" "getInt16 b1 46 = - 32768"
    by (auto simp: m)
  from encodeWAV_quantization [OF h r(2) r(3)] v(1) obtain b2 where
    b2: "encodeWAV 2147483647 stereoTake = Inr b2" "getInt16 b2 48 = 32767"
    by (auto simp: m)
  from encodeWAV_quantization [OF h r(2) r(4)] v(2) obtain b3 where
    b3: "encodeWAV 2147483647 stereoTake = Inr b3" "getInt16 b3 50 = 32767"
    by (auto simp: m)
  have "b1 = b0" "b2 = b0" "b3 = b0" using b0(1) b1(1) b2(1) b3(1) by simp_all
  then have "encodeWAV 2147483647 stereoTake = Inr b0
         \<and> getInt16 b0 44 = 0 \<and> getInt16 b0 46 = - 32768
         \<and> getInt16 b0 48 = 32767 \<and> getInt16 b0 50 = 32767"
    using b0 b1 b2 b3 by simp
  then show ?thesis using h r v by blast
qed

section \<open>Properties of the history store\<close>

lemma take_append_take: "take n (a @ take n b) = take n (a @ b)"
  by (simp add: min_def)

lemma parse_after_saveSTT:
  assumes "parseHistory (getItem st ''speechLab_stt_history'') = Inr xs"
  shows "parseHistory (getItem (snd (saveSTTHistory stamp t a l d st)) ''speechLab_stt_history'')
     = Inr (take 50 (sttItem (stamp, t, a, l, d) # xs))"
  using assms by (simp add: saveSTTHistory_def parseHistory_def getItem_def setItem_def slice0_def Let_def)

lemma parse_after_saveTTS:
  assumes "parseHistory (getItem st ''speechLab_tts_history'') = Inr xs"
  shows "parseHistory (getItem (snd (saveTTSHistory stamp t v l d st)) ''speechLab_tts_history'')
     = Inr (take 50 (ttsItem (stamp, t, v, l, d) # xs))"
  using assms by (simp add: saveTTSHistory_def parseHistory_def getItem_def setItem_def slice0_def Let_def)

lemma saveAllSTT_parse:
  assumes "parseHistory (getItem st ''speechLab_stt_history'') = Inr xs" and "length xs \<le> 50"
  shows "parseHistory (getItem (saveAllSTT calls st) ''speechLab_stt_history'')
     = Inr (take 50 (rev (map sttItem calls) @ xs))"
  using assms
proof (induction calls arbitrary: st xs)
  case Nil
  then show ?case by simp
next
  case (Cons c calls)
  obtain stamp t a l d where c: "c = (stamp, t, a, l, d)" by (cases c) auto
  let ?st = "snd (saveSTTHistory stamp t a l d st)"
  have "parseHistory (getItem ?st ''speechLab_stt_history'') = Inr (take 50 (sttItem c # xs))"
    unfolding c using Cons.prems(1) by (rule parse_after_saveSTT)
  then have "parseHistory (getItem (saveAllSTT calls ?st) ''speechLab_stt_history'')
      = Inr (take 50 (rev (map sttItem calls) @ take 50 (sttItem c # xs)))"
    by (rule Cons.IH) simp
  then show ?case
    unfolding c by (simp only: saveAllSTT.simps take_append_take) simp
qed

lemma saveAllTTS_parse:
  assumes "parseHistory (getItem st ''speechLab_tts_history'') = Inr xs" and "length xs \<le> 50"
  shows "parseHistory (getItem (saveAllTTS calls st) ''speechLab_tts_history'')
     = Inr (take 50 (rev (map ttsItem calls) @ xs))"
  using assms
proof (induction calls arbitrary: st xs)
  case Nil
  then show ?case by simp
next
  case (Cons c calls)
  obtain stamp t v l d where c: "c = (stamp, t, v, l, d)" by (cases c) auto
  let ?st = "snd (saveTTSHistory stamp t v l d st)"
  have "parseHistory (getItem ?st ''speechLab_tts_history'') = Inr (take 50 (ttsItem c # xs))"
    unfolding c using Cons.prems(1) by (rule parse_after_saveTTS)
  then have "parseHistory (getItem (saveAllTTS calls ?st) ''speechLab_tts_history'')
      = Inr (take 50 (rev (map ttsItem calls) @ take 50 (ttsItem c # xs)))"
    by (rule Cons.IH) simp
  then show ?case
    unfolding c by (simp only: saveAllTTS.simps take_append_take) simp
qed

lemma newest_first: "take 50 (rev ys) = rev (drop (length ys - 50) ys)"
  by (simp add: take_rev)

lemma map_of_Map_set: "map_of (Map_set m k v) = (map_of m)(k \<mapsto> v)"
  by (induction m) (auto simp: fun_eq_iff)

lemma keys_Map_set:
  "map fst (Map_set m k v) = (if k \<in> set (map fst m) then map fst m else map fst m @ [k])"
proof (induction m)
  case Nil
  then show ?case by simp
next
  case (Cons p m)
  obtain k' v' where p: "p = (k', v')" by (cases p)
  show ?case unfolding p using Cons.IH by (cases "k' = k") auto
qed

lemma distinct_Map_set: "distinct (map fst m) \<Longrightarrow> distinct (map fst (Map_set m k v))"
  by (simp add: keys_Map_set)

lemma foldl_Map_set_map_of:
  "map_of (foldl (\<lambda>m (k, v). Map_set m k v) m0 ps) = map_of (rev ps @ m0)"
proof (induction ps arbitrary: m0)
  case Nil
  then show ?case by simp
next
  case (Cons p ps)
  obtain k v where p: "p = (k, v)" by (cases p)
  have "map_of (foldl (\<lambda>m (k, v). Map_set m k v) m0 (p # ps)) = map_of (rev ps @ Map_set m0 k v)"
    unfolding p using Cons.IH [of "Map_set m0 k v"] by simp
  also have "\<dots> = map_of (rev ps @ (k, v) # m0)"
    by (simp add: map_of_Map_set fun_eq_iff map_add_def split: option.splits)
  finally show ?case by (simp add: p)
qed

lemma foldl_Map_set_distinct:
  "distinct (map fst m0) \<Longrightarrow> distinct (map fst (foldl (\<lambda>m (k, v). Map_set m k v) m0 ps))"
proof (induction ps arbitrary: m0)
  case Nil
  then show ?case by simp
next
  case (Cons p ps)
  obtain k v where p: "p = (k, v)" by (cases p)
  show ?case unfolding p using Cons.IH [OF distinct_Map_set [OF Cons.prems, of k v]] by simp
qed

lemma foldl_Map_set_keys:
  "set (map fst (foldl (\<lambda>m (k, v). Map_set m k v) m0 ps)) = set (map fst m0) \<union> set (map fst ps)"
proof (induction ps arbitrary: m0)
  case Nil
  then show ?case by simp
next
  case (Cons p ps)
  obtain k v where p: "p = (k, v)" by (cases p)
  have "set (map fst (Map_set m0 k v)) = insert k (set (map fst m0))"
    by (auto simp: keys_Map_set)
  then show ?case unfolding p using Cons.IH [of "Map_set m0 k v"] by auto
qed

lemma map_of_rev_last:
  "map_of (rev (map (\<lambda>x. (f x, x)) xs)) k = Some v \<longleftrightarrow>
     filter (\<lambda>y. f y = k) xs \<noteq> [] \<and> v = last (filter (\<lambda>y. f y = k) xs)"
proof (induction xs rule: rev_induct)
  case Nil
  then show ?case by simp
next
  case (snoc x xs)
  then show ?case by (cases "f x = k") auto
qed

lemma new_Map_entries:
  fixes history :: "historyItem list"
  defines "m \<equiv> new_Map (map (\<lambda>item. (item_id item, item)) history)"
  assumes "(k, v) \<in> set m"
  shows "filter (\<lambda>y. item_id y = k) history \<noteq> []"
    and "v = last (filter (\<lambda>y. item_id y = k) history)"
proof -
  have "distinct (map fst m)"
    unfolding m_def new_Map_def by (rule foldl_Map_set_distinct) simp
  with assms(2) have "map_of m k = Some v" by simp
  then have "map_of (rev (map (\<lambda>item. (item_id item, item)) history)) k = Some v"
    unfolding m_def new_Map_def foldl_Map_set_map_of by simp
  then show "filter (\<lambda>y. item_id y = k) history \<noteq> []"
    and "v = last (filter (\<lambda>y. item_id y = k) history)"
    by (simp_all add: map_of_rev_last)
qed

lemma new_Map_key:
  fixes history :: "historyItem list"
  assumes "(k, v) \<in> set (new_Map (map (\<lambda>item. (item_id item, item)) history))"
  shows "item_id v = k"
proof -
  let ?f = "filter (\<lambda>y. item_id y = k) history"
  have "?f \<noteq> []" and "v = last ?f" using new_Map_entries [OF assms] by simp_all
  then have "v \<in> set ?f" using last_in_set by metis
  then show ?thesis by simp
qed

lemma uniqueById_ids:
  "map item_id (uniqueById history) = map fst (new_Map (map (\<lambda>item. (item_id item, item)) history))"
proof -
  have "(\<And>k v. (k, v) \<in> set m \<Longrightarrow> item_id v = k) \<Longrightarrow> map item_id (map snd m) = map fst m"
    for m :: "(string \<times> historyItem) list"
    by (induction m) auto
  then show ?thesis unfolding uniqueById_def Map_values_def using new_Map_key by blast
qed

lemma uniqueById_distinct: "distinct (map item_id (uniqueById history))"
  unfolding uniqueById_ids new_Map_def by (rule foldl_Map_set_distinct) simp

lemma uniqueById_same_ids: "set (map item_id (uniqueById history)) = set (map item_id history)"
  unfolding uniqueById_ids new_Map_def foldl_Map_set_keys by (simp add: comp_def)

lemma uniqueById_keeps_last:
  assumes "e \<in> set (uniqueById history)"
  shows "e = last (filter (\<lambda>y. item_id y = item_id e) history)"
proof -
  from assms obtain k where kv: "(k, e) \<in> set (new_Map (map (\<lambda>item. (item_id item, item)) history))"
    unfolding uniqueById_def Map_values_def by auto
  then have "item_id e = k" by (rule new_Map_key)
  then show ?thesis using new_Map_entries(2) [OF kv] by simp
qed

lemma doubleWrite_stored:
  "doubleWrite = [''speechLab_stt_history'' \<mapsto> Items [sttItem secondWrite, sttItem firstWrite]]"
  by (simp add: doubleWrite_def firstWrite_def secondWrite_def saveSTTHistory_def parseHistory_def
      getItem_def setItem_def slice0_def Let_def)

lemma uniqueById_double:
  "uniqueById [sttItem secondWrite, sttItem firstWrite] = [sttItem firstWrite]"
  by (simp add: uniqueById_def new_Map_def Map_values_def firstWrite_def secondWrite_def)

text \<open>
  Claim C5. Appending \<open>k\<close> entries one after the other with \<open>saveSTTHistory\<close>
  (respectively \<open>saveTTSHistory\<close>) to an initially empty collection leaves exactly
  \<open>min k 50\<close> entries, newest first: the last \<open>min k 50\<close> appended, reversed. After 60
  appends these are the 50 appended last; the 10 oldest are evicted.
\<close>

theorem history_cap:
  "(parseHistory (getItem st ''speechLab_stt_history'') = Inr [] \<longrightarrow>
      (\<exists>entries. parseHistory (getItem (saveAllSTT sttCalls st) ''speechLab_stt_history'') = Inr entries
         \<and> length entries = min (length sttCalls) 50
         \<and> entries = rev (drop (length sttCalls - 50) (map sttItem sttCalls))
         \<and> (length sttCalls = 60 \<longrightarrow> entries = rev (drop 10 (map sttItem sttCalls)))))
   \<and> (parseHistory (getItem st ''speechLab_tts_history'') = Inr [] \<longrightarrow>
      (\<exists>entries. parseHistory (getItem (saveAllTTS ttsCalls st) ''speechLab_tts_history'') = Inr entries
         \<and> length entries = min (length ttsCalls) 50
         \<and> entries = rev (drop (length ttsCalls - 50) (map ttsItem ttsCalls))
         \<and> (length ttsCalls = 60 \<longrightarrow> entries = rev (drop 10 (map ttsItem ttsCalls)))))"
proof (intro conjI impI)
  assume "parseHistory (getItem st ''speechLab_stt_history'') = Inr []"
  then have "parseHistory (getItem (saveAllSTT sttCalls st) ''speechLab_stt_history'')
      = Inr (rev (drop (length sttCalls - 50) (map sttItem sttCalls)))"
    using saveAllSTT_parse [of st "[]" sttCalls] newest_first [of "map sttItem sttCalls"] by simp
  then show "\<exists>entries. parseHistory (getItem (saveAllSTT sttCalls st) ''speechLab_stt_history'') = Inr entries
         \<and> length entries = min (length sttCalls) 50
         \<and> entries = rev (drop (length sttCalls - 50) (map sttItem sttCalls))
         \<and> (length sttCalls = 60 \<longrightarrow> entries = rev (drop 10 (map sttItem sttCalls)))"
    by auto
next
  assume "parseHistory (getItem st ''speechLab_tts_history'') = Inr []"
  then have "parseHistory (getItem (saveAllTTS ttsCalls st) ''speechLab_tts_history'')
      = Inr (rev (drop (length ttsCalls - 50) (map ttsItem ttsCalls)))"
    using saveAllTTS_parse [of st "[]" ttsCalls] newest_first [of "map ttsItem ttsCalls"] by simp
  then show "\<exists>entries. parseHistory (getItem (saveAllTTS ttsCalls st) ''speechLab_tts_history'') = Inr entries
         \<and> length entries = min (length ttsCalls) 50
         \<and> entries = rev (drop (length ttsCalls - 50) (map ttsItem ttsCalls))
         \<and> (length ttsCalls = 60 \<longrightarrow> entries = rev (drop 10 (map ttsItem ttsCalls)))"
    by auto
qed

theorem history_cap_witness:
  "parseHistory (getItem Map.empty ''speechLab_stt_history'') = Inr []
   \<and> parseHistory (getItem Map.empty ''speechLab_tts_history'') = Inr []
   \<and> length (map entryNo [0 ..< 60]) = 60
   \<and> (\<exists>entries. parseHistory (getItem (saveAllSTT (map entryNo [0 ..< 60]) Map.empty)
                     ''speechLab_stt_history'') = Inr entries
         \<and> length entries = 50
         \<and> entries = rev (drop 10 (map sttItem (map entryNo [0 ..< 60]))))
   \<and> (\<exists>entries. parseHistory (getItem (saveAllTTS (map ttsEntryNo [0 ..< 3]) Map.empty)
                     ''speechLab_tts_history'') = Inr entries
         \<and> length entries = 3
         \<and> entries = [ttsItem (ttsEntryNo 2), ttsItem (ttsEntryNo 1), ttsItem (ttsEntryNo 0)])"
proof -
  have e: "parseHistory (getItem Map.empty ''speechLab_stt_history'') = Inr []"
    "parseHistory (getItem Map.empty ''speechLab_tts_history'') = Inr []"
    by (simp_all add: parseHistory_def getItem_def)
  have l: "length (map entryNo [0 ..< 60]) = 60" by simp
  have u: "[0 ..< 3] = [0, 1, 2]" by (simp add: upt_rec)
  from history_cap [of Map.empty "map entryNo [0 ..< 60]" "map ttsEntryNo [0 ..< 3]"] e
  obtain es et where
    s: "parseHistory (getItem (saveAllSTT (map entryNo [0 ..< 60]) Map.empty)
          ''speechLab_stt_history'') = Inr es"
       "length es = min (length (map entryNo [0 ..< 60])) 50"
       "length (map entryNo [0 ..< 60]) = 60 \<longrightarrow> es = rev (drop 10 (map sttItem (map entryNo [0 ..< 60])))"
    and t: "parseHistory (getItem (saveAllTTS (map ttsEntryNo [0 ..< 3]) Map.empty)
          ''speechLab_tts_history'') = Inr et"
       "length et = min (length (map ttsEntryNo [0 ..< 3])) 50"
       "et = rev (drop (length (map ttsEntryNo [0 ..< 3]) - 50) (map ttsItem (map ttsEntryNo [0 ..< 3])))"
    by blast
  have "length es = 50" "es = rev (drop 10 (map sttItem (map entryNo [0 ..< 60])))"
    using s l by simp_all
  moreover have "length et = 3" "et = [ttsItem (ttsEntryNo 2), ttsItem (ttsEntryNo 1), ttsItem (ttsEntryNo 0)]"
    using t(2,3) by (simp_all add: u)
  ultimately show ?thesis using e l s(1) t(1) by blast
qed

text \<open>
  Claim C6, as amended. When both stored collections parse, \<open>cleanupDuplicateHistory\<close>
  leaves in each exactly one entry per identifier, and the entry it retains for an
  identifier is the last one with that identifier in stored order. The collections are
  stored newest first, so of two entries appended under one identifier the pass retains
  the older one; the counterexample shows it for two appends, where the claim as stated
  asks for the most recent entry. When one of the two collections does not parse, the
  pass writes nothing: the storage is what it was.
\<close>

theorem cleanup_keeps_last:
  "(\<forall>stt tts. parseHistory (getItem st ''speechLab_stt_history'') = Inr stt
        \<and> parseHistory (getItem st ''speechLab_tts_history'') = Inr tts \<longrightarrow>
       getItem (cleanupDuplicateHistory st) ''speechLab_stt_history'' = Some (Items (uniqueById stt))
     \<and> getItem (cleanupDuplicateHistory st) ''speechLab_tts_history'' = Some (Items (uniqueById tts))
     \<and> distinct (map item_id (uniqueById stt))
     \<and> set (map item_id (uniqueById stt)) = set (map item_id stt)
     \<and> (\<forall>e \<in> set (uniqueById stt). e = last (filter (\<lambda>y. item_id y = item_id e) stt))
     \<and> distinct (map item_id (uniqueById tts))
     \<and> set (map item_id (uniqueById tts)) = set (map item_id tts)
     \<and> (\<forall>e \<in> set (uniqueById tts). e = last (filter (\<lambda>y. item_id y = item_id e) tts)))
   \<and> ((\<exists>err. parseHistory (getItem st ''speechLab_stt_history'') = Inl err)
        \<or> (\<exists>err. parseHistory (getItem st ''speechLab_tts_history'') = Inl err) \<longrightarrow>
       cleanupDuplicateHistory st = st)"
proof (intro conjI allI impI)
  fix stt tts
  assume p: "parseHistory (getItem st ''speechLab_stt_history'') = Inr stt
        \<and> parseHistory (getItem st ''speechLab_tts_history'') = Inr tts"
  have w: "getItem (cleanupDuplicateHistory st) ''speechLab_stt_history'' = Some (Items (uniqueById stt))"
    "getItem (cleanupDuplicateHistory st) ''speechLab_tts_history'' = Some (Items (uniqueById tts))"
    using p by (simp_all add: cleanupDuplicateHistory_def getItem_def setItem_def Let_def)
  show "getItem (cleanupDuplicateHistory st) ''speechLab_stt_history'' = Some (Items (uniqueById stt))"
    by (rule w(1))
  show "getItem (cleanupDuplicateHistory st) ''speechLab_tts_history'' = Some (Items (uniqueById tts))"
    by (rule w(2))
  show "distinct (map item_id (uniqueById stt))" by (rule uniqueById_distinct)
  show "set (map item_id (uniqueById stt)) = set (map item_id stt)" by (rule uniqueById_same_ids)
  show "\<forall>e \<in> set (uniqueById stt). e = last (filter (\<lambda>y. item_id y = item_id e) stt)"
    using uniqueById_keeps_last by blast
  show "distinct (map item_id (uniqueById tts))" by (rule uniqueById_distinct)
  show "set (map item_id (uniqueById tts)) = set (map item_id tts)" by (rule uniqueById_same_ids)
  show "\<forall>e \<in> set (uniqueById tts). e = last (filter (\<lambda>y. item_id y = item_id e) tts)"
    using uniqueById_keeps_last by blast
next
  assume "(\<exists>err. parseHistory (getItem st ''speechLab_stt_history'') = Inl err)
        \<or> (\<exists>err. parseHistory (getItem st ''speechLab_tts_history'') = Inl err)"
  then show "cleanupDuplicateHistory st = st"
    by (auto simp: cleanupDuplicateHistory_def split: sum.splits)
qed

theorem cleanup_keeps_last_witness:
  "parseHistory (getItem doubleWrite ''speechLab_stt_history'')
      = Inr [sttItem secondWrite, sttItem firstWrite]
   \<and> parseHistory (getItem doubleWrite ''speechLab_tts_history'') = Inr []
   \<and> getItem (cleanupDuplicateHistory doubleWrite) ''speechLab_stt_history''
      = Some (Items [sttItem firstWrite])
   \<and> getItem (cleanupDuplicateHistory doubleWrite) ''speechLab_tts_history'' = Some (Items [])
   \<and> last (filter (\<lambda>y. item_id y = item_id (sttItem firstWrite))
        [sttItem secondWrite, sttItem firstWrite]) = sttItem firstWrite
   \<and> parseHistory (getItem halfReadable ''speechLab_stt_history'')
      = Inr [sttItem secondWrite, sttItem firstWrite]
   \<and> parseHistory (getItem halfReadable ''speechLab_tts_history'') = Inl SyntaxError
   \<and> cleanupDuplicateHistory halfReadable = halfReadable"
proof -
  have s: "parseHistory (getItem doubleWrite ''speechLab_stt_history'')
      = Inr [sttItem secondWrite, sttItem firstWrite]"
    and t: "parseHistory (getItem doubleWrite ''speechLab_tts_history'') = Inr []"
    by (simp_all add: doubleWrite_stored parseHistory_def getItem_def)
  have hs: "parseHistory (getItem halfReadable ''speechLab_stt_history'')
      = Inr [sttItem secondWrite, sttItem firstWrite]"
    and ht: "parseHistory (getItem halfReadable ''speechLab_tts_history'') = Inl SyntaxError"
    by (simp_all add: halfReadable_def doubleWrite_stored parseHistory_def getItem_def)
  have u: "uniqueById [] = []"
    by (simp add: uniqueById_def new_Map_def Map_values_def)
  have l: "last (filter (\<lambda>y. item_id y = item_id (sttItem firstWrite))
        [sttItem secondWrite, sttItem firstWrite]) = sttItem firstWrite"
    by (simp add: firstWrite_def secondWrite_def)
  have a: "getItem (cleanupDuplicateHistory doubleWrite) ''speechLab_stt_history''
      = Some (Items [sttItem firstWrite])"
    "getItem (cleanupDuplicateHistory doubleWrite) ''speechLab_tts_history'' = Some (Items [])"
    using cleanup_keeps_last [of doubleWrite] s t by (simp_all add: uniqueById_double u)
  have b: "cleanupDuplicateHistory halfReadable = halfReadable"
    using cleanup_keeps_last [of halfReadable] ht by blast
  show ?thesis using s t l a hs ht b by simp
qed

theorem cleanup_keeps_older_counterexample:
  "parseHistory (getItem doubleWrite ''speechLab_stt_history'')
      = Inr [sttItem secondWrite, sttItem firstWrite]
   \<and> parseHistory (getItem (cleanupDuplicateHistory doubleWrite) ''speechLab_stt_history'')
      = Inr [sttItem firstWrite]
   \<and> item_id (sttItem firstWrite) = item_id (sttItem secondWrite)
   \<and> item_content (sttItem firstWrite) = ''first take''
   \<and> item_content (sttItem secondWrite) = ''second take''
   \<and> sttItem firstWrite \<noteq> sttItem secondWrite"
proof -
  have "cleanupDuplicateHistory doubleWrite ''speechLab_stt_history'' = Some (Items [sttItem firstWrite])"
    unfolding doubleWrite_stored
    by (simp add: cleanupDuplicateHistory_def parseHistory_def getItem_def setItem_def
        uniqueById_double Let_def)
  moreover have "sttItem firstWrite \<noteq> sttItem secondWrite"
    "item_id (sttItem firstWrite) = item_id (sttItem secondWrite)"
    "item_content (sttItem firstWrite) = ''first take''"
    "item_content (sttItem secondWrite) = ''second take''"
    by (simp_all add: firstWrite_def secondWrite_def)
  ultimately show ?thesis
    by (simp add: doubleWrite_stored parseHistory_def getItem_def)
qed

text \<open>
  Claim C10. \<open>saveSTTHistory\<close> writes no storage key but \<open>speechLab_stt_history\<close>: the value
  under \<open>speechLab_tts_history\<close> and under every other key is what it was; and
  \<open>saveTTSHistory\<close> writes no key but \<open>speechLab_tts_history\<close>.
\<close>

theorem history_frame:
  "(\<forall>key. key \<noteq> ''speechLab_stt_history'' \<longrightarrow>
       snd (saveSTTHistory stamp content accuracy lang duration st) key = st key)
   \<and> snd (saveSTTHistory stamp content accuracy lang duration st) ''speechLab_tts_history''
       = st ''speechLab_tts_history''
   \<and> (\<forall>key. key \<noteq> ''speechLab_tts_history'' \<longrightarrow>
       snd (saveTTSHistory stamp content voice lang duration st) key = st key)
   \<and> snd (saveTTSHistory stamp content voice lang duration st) ''speechLab_stt_history''
       = st ''speechLab_stt_history''"
  by (simp add: saveSTTHistory_def saveTTSHistory_def setItem_def Let_def split: sum.splits)

theorem history_frame_witness:
  "''theme'' \<noteq> ''speechLab_stt_history'' \<and> ''theme'' \<noteq> ''speechLab_tts_history''
   \<and> snd (saveSTTHistory (''id-1'', ''now'') ''hello'' 0.95 ''en'' 5 otherKeys) ''theme''
        = Some (Text ''dark'')
   \<and> snd (saveSTTHistory (''id-1'', ''now'') ''hello'' 0.95 ''en'' 5 otherKeys) ''speechLab_tts_history''
        = Some (Items [ttsItem (ttsEntryNo 1)])
   \<and> snd (saveTTSHistory (''id-1'', ''now'') ''hello'' ''Rachel'' ''en'' 5 otherKeys) ''theme''
        = Some (Text ''dark'')
   \<and> snd (saveTTSHistory (''id-1'', ''now'') ''hello'' ''Rachel'' ''en'' 5 otherKeys) ''speechLab_stt_history''
        = None"
proof -
  have n: "''theme'' \<noteq> ''speechLab_stt_history''" "''theme'' \<noteq> ''speechLab_tts_history''"
    by simp_all
  have o: "otherKeys ''theme'' = Some (Text ''dark'')"
    "otherKeys ''speechLab_tts_history'' = Some (Items [ttsItem (ttsEntryNo 1)])"
    "otherKeys ''speechLab_stt_history'' = None"
    by (simp_all add: otherKeys_def)
  show ?thesis
    using history_frame [where stamp = "(''id-1'', ''now'')" and content = "''hello''"
        and accuracy = "0.95" and lang = "''en''" and duration = 5 and st = otherKeys
        and voice = "''Rachel''"]
      n o by simp
qed

section \<open>Properties of the live transcription session\<close>

lemma collect_eq:
  "collect rs (f, i) =
     (f @ concat (map (\<lambda>r. transcript r @ '' '') (filter isFinal rs)),
      i @ concat (map transcript (filter (\<lambda>r. \<not> isFinal r) rs)))"
  by (induction rs arbitrary: f i) auto

lemma texts_simps [simp]:
  "texts (setIsLoading b w) = texts w"
  "texts (setIsPlaying b w) = texts w"
  "texts (setSttHistory xs w) = texts w"
  "texts (setTtsHistory xs w) = texts w"
  "texts (alert msg w) = texts w"
  "texts (fetch path w) = texts w"
  "texts (w\<lparr>localStorage := st\<rparr>) = texts w"
  by (simp_all add: texts_def setIsLoading_def setIsPlaying_def setSttHistory_def
      setTtsHistory_def alert_def fetch_def)

lemma texts_loadHistory [simp]: "texts (loadHistory w) = texts w"
  by (simp add: loadHistory_def split: sum.splits)

lemma texts_realTextToSpeech [simp]: "texts (snd (realTextToSpeech e w)) = texts w"
  by (simp add: realTextToSpeech_def split: sum.splits error.splits)

lemma texts_handleBackendTTS [simp]: "texts (snd (handleBackendTTS c t e w)) = texts w"
  by (simp add: handleBackendTTS_def Let_def split: sum.splits prod.splits)
     (metis snd_conv texts_realTextToSpeech texts_simps(1,6))

lemma texts_handleTextToSpeech [simp]: "texts (handleTextToSpeech c t e w) = texts w"
proof (cases "trim (orElse t (text_state c)) = []")
  case True
  then show ?thesis by (simp add: handleTextToSpeech_def)
next
  case False
  let ?s = "orElse t (text_state c)"
  let ?w1 = "setIsLoading True w"
  obtain r w2 where rw: "(if backendConnected c then handleBackendTTS c ?s e ?w1
      else realTextToSpeech e ?w1) = (r, w2)"
    by fastforce
  have "texts (snd (if backendConnected c then handleBackendTTS c ?s e ?w1
      else realTextToSpeech e ?w1)) = texts ?w1"
    by simp
  then have t2: "texts w2 = texts w" using rw by simp
  obtain saved st where sv: "saveTTSHistory (stamp1 e) ?s (voiceModel c) (language c)
      (real (length ?s) / 10) (localStorage w2) = (saved, st)"
    by fastforce
  show ?thesis
    using False rw sv t2
    by (simp add: handleTextToSpeech_def Let_def split: sum.splits)
qed

lemma texts_onresult_interim:
  assumes "\<not> list_ex isFinal (drop (resultIndex event) (results event))"
  shows "interimTranscript (ui (onresult c e event w))
      = concat (map transcript (drop (resultIndex event) (results event)))"
    and "liveSessionText (ui (onresult c e event w)) = liveSessionText (ui w)"
proof -
  let ?rs = "drop (resultIndex event) (results event)"
  have f: "filter isFinal ?rs = []" "filter (\<lambda>r. \<not> isFinal r) ?rs = ?rs"
    using assms by (simp_all add: list_ex_iff filter_empty_conv)
  then have o: "onresult c e event w = setInterimTranscript (concat (map transcript ?rs)) w"
    by (simp add: onresult_def collect_eq)
  show "interimTranscript (ui (onresult c e event w)) = concat (map transcript ?rs)"
    and "liveSessionText (ui (onresult c e event w)) = liveSessionText (ui w)"
    unfolding o by (simp_all add: setInterimTranscript_def)
qed

lemma texts_onresult_final:
  assumes "list_ex isFinal (drop (resultIndex event) (results event))"
  shows "interimTranscript (ui (onresult c e event w)) = []"
    and "liveSessionText (ui (onresult c e event w)) = liveSessionText (ui w) @ '' '' @
       trim (concat (map (\<lambda>r. transcript r @ '' '')
         (filter isFinal (drop (resultIndex event) (results event)))))"
proof -
  let ?rs = "drop (resultIndex event) (results event)"
  let ?f = "concat (map (\<lambda>r. transcript r @ '' '') (filter isFinal ?rs))"
  let ?w = "setInterimTranscript [] (setLiveSessionText (\<lambda>prev. prev @ '' '' @ trim ?f)
      (setTranscribedText (\<lambda>prev. prev @ '' '' @ trim ?f) w))"
  from assms obtain r where "r \<in> set (filter isFinal ?rs)"
    by (auto simp: list_ex_iff)
  then have "?f \<noteq> []" by (auto simp: concat_eq_Nil_conv)
  then have "texts (onresult c e event w) = texts ?w"
    by (simp add: onresult_def collect_eq Let_def)
  then show "interimTranscript (ui (onresult c e event w)) = []"
    and "liveSessionText (ui (onresult c e event w)) = liveSessionText (ui w) @ '' '' @ trim ?f"
    by (simp_all add: texts_def setInterimTranscript_def setLiveSessionText_def setTranscribedText_def)
qed

lemma trim_hello: "trim ''hello world '' = ''hello world''"
  by (simp add: trim_def isWhiteSpace_def)

lemma occurrences_hello: "occurrences ''hello world'' '' hello world'' = 1"
  by simp

text \<open>
  Claim C3. From an empty live session, the recognition events interim \<open>hel\<close>, interim
  \<open>hello\<close>, final \<open>hello world\<close> leave the interim text \<open>hel\<close>, then \<open>hello\<close>, then
  empty, and afterwards the session text contains \<open>hello world\<close> exactly once. An event
  with no final result replaces the interim text by its own transcripts and leaves the
  session text alone; an event with a final result clears the interim text. This holds
  for every state the handler may have captured and every answer of the environment.
\<close>

theorem live_session_ordering:
  assumes "liveSessionText (ui w) = []"
  shows "fst (interimTrace c e
            [interimEvent ''hel'', interimEvent ''hello'', finalEvent ''hello world''] w)
          = [''hel'', ''hello'', '''']
     \<and> occurrences ''hello world'' (liveSessionText (ui (snd (interimTrace c e
            [interimEvent ''hel'', interimEvent ''hello'', finalEvent ''hello world''] w)))) = 1
     \<and> (\<forall>event w. \<not> list_ex isFinal (drop (resultIndex event) (results event)) \<longrightarrow>
            interimTranscript (ui (onresult c e event w))
              = concat (map transcript (drop (resultIndex event) (results event)))
            \<and> liveSessionText (ui (onresult c e event w)) = liveSessionText (ui w))
     \<and> (\<forall>event w. list_ex isFinal (drop (resultIndex event) (results event)) \<longrightarrow>
            interimTranscript (ui (onresult c e event w)) = [])"
proof -
  let ?e1 = "interimEvent ''hel''" and ?e2 = "interimEvent ''hello''"
  let ?e3 = "finalEvent ''hello world''"
  let ?w1 = "onresult c e ?e1 w"
  let ?w2 = "onresult c e ?e2 ?w1"
  let ?w3 = "onresult c e ?e3 ?w2"
  have n: "\<not> list_ex isFinal (drop (resultIndex ?e1) (results ?e1))"
    "\<not> list_ex isFinal (drop (resultIndex ?e2) (results ?e2))"
    and y: "list_ex isFinal (drop (resultIndex ?e3) (results ?e3))"
    by (simp_all add: interimEvent_def finalEvent_def)
  have i1: "interimTranscript (ui ?w1) = ''hel''"
    using texts_onresult_interim(1) [OF n(1)] by (simp add: interimEvent_def)
  have i2: "interimTranscript (ui ?w2) = ''hello''"
    using texts_onresult_interim(1) [OF n(2)] by (simp add: interimEvent_def)
  have i3: "interimTranscript (ui ?w3) = []"
    using texts_onresult_final(1) [OF y] by simp
  have "liveSessionText (ui ?w2) = []"
    using texts_onresult_interim(2) [OF n(1)] texts_onresult_interim(2) [OF n(2)] assms by simp
  then have l3: "liveSessionText (ui ?w3) = '' hello world''"
    using texts_onresult_final(2) [OF y, of c e ?w2] trim_hello by (simp add: finalEvent_def)
  have tr: "interimTrace c e [?e1, ?e2, ?e3] w
      = ([interimTranscript (ui ?w1), interimTranscript (ui ?w2), interimTranscript (ui ?w3)], ?w3)"
    by (simp add: Let_def)
  have a: "fst (interimTrace c e [?e1, ?e2, ?e3] w) = [''hel'', ''hello'', '''']"
    unfolding tr using i1 i2 i3 by simp
  have b: "occurrences ''hello world'' (liveSessionText (ui (snd (interimTrace c e [?e1, ?e2, ?e3] w)))) = 1"
    unfolding tr using l3 occurrences_hello by simp
  show ?thesis
    using a b texts_onresult_interim texts_onresult_final(1) by blast
qed

theorem live_session_ordering_witness:
  "liveSessionText (ui (liveSession initialWorld)) = []
   \<and> fst (interimTrace initialComponent offlineEnv
            [interimEvent ''hel'', interimEvent ''hello'', finalEvent ''hello world'']
            (liveSession initialWorld))
       = [''hel'', ''hello'', '''']
   \<and> occurrences ''hello world'' (liveSessionText (ui (snd (interimTrace initialComponent offlineEnv
            [interimEvent ''hel'', interimEvent ''hello'', finalEvent ''hello world'']
            (liveSession initialWorld))))) = 1"
proof -
  have "liveSessionText (ui (liveSession initialWorld)) = []"
    by (simp add: liveSession_def startLiveTranscription_def recognitionEffect_def initialWorld_def
        recognition_start_def setLiveSessionText_def Let_def)
  then show ?thesis
    using live_session_ordering [of "liveSession initialWorld" initialComponent offlineEnv]
    by simp
qed

lemma onend_restarts:
  assumes "isLiveTranscribing c" and "recognitionRef w = Some k" and "k < length (recognizers w)"
    and "\<not> running (recognizers w ! k)"
  shows "running (recognizers (onend c w) ! k)" and "ui (onend c w) = ui w"
  using assms by (simp_all add: onend_def recognition_start_def)

lemma onerror_stops:
  "\<not> isLiveTranscribing (ui (streamError k w))" "recognizers (streamError k w) = recognizers w"
  "liveSessionText (ui (streamError k w)) = liveSessionText (ui w)"
  by (simp_all add: streamError_def onerror_def setIsLiveTranscribing_def)

lemma liveSession_state:
  assumes "speechRecognitionSupported w" and "recognizers w = []"
  shows "liveSession w = (recognitionEffect w)
      \<lparr>recognizers := [\<lparr> running = True, handlers = ui w \<rparr>],
       ui := (ui w)\<lparr>isLiveTranscribing := True, transcribedText := [],
                    interimTranscript := [], liveSessionText := []\<rparr>\<rparr>"
  using assms
  by (simp add: liveSession_def startLiveTranscription_def recognitionEffect_def
      recognition_start_def setIsLiveTranscribing_def setTranscribedText_def
      setInterimTranscript_def setLiveSessionText_def Let_def)

text \<open>
  Claim C4 asks that a stream-end event in a state whose live flag is set restarts the
  stream. \<open>onend\<close> does so when the flag its closure captured is set (lemma
  \<open>onend_restarts\<close>), and \<open>onerror\<close> clears the flag without a restart. But the handlers
  of the recognition object that \<open>startLiveTranscription\<close> starts were created by the
  effect of a render in which the flag was not set. In a live session begun from such a
  render the flag is set and the stream runs; when that stream ends, no recognition
  object runs any more, before the effect has run again as well as after (its cleanup
  stops the stream, and the object it creates is never started).
\<close>

theorem live_restart_lost:
  assumes "speechRecognitionSupported w" and "recognizers w = []"
    and "\<not> isLiveTranscribing (ui w)"
  shows "isLiveTranscribing (ui (liveSession w))
     \<and> recognitionRef (liveSession w) = Some 0
     \<and> running (recognizers (liveSession w) ! 0)
     \<and> \<not> isLiveTranscribing (handlers (recognizers (liveSession w) ! 0))
     \<and> isLiveTranscribing (ui (streamEnd 0 (liveSession w)))
     \<and> list_all (\<lambda>r. \<not> running r) (recognizers (streamEnd 0 (liveSession w)))
     \<and> isLiveTranscribing (ui (rerender (ui w) (liveSession w)))
     \<and> list_all (\<lambda>r. \<not> running r) (recognizers (rerender (ui w) (liveSession w)))
     \<and> list_all (\<lambda>r. \<not> running r) (recognizers (streamEnd 0 (rerender (ui w) (liveSession w))))
     \<and> \<not> isLiveTranscribing (ui (streamError 0 (liveSession w)))"
proof -
  let ?w = "liveSession w"
  note s = liveSession_state [OF assms(1,2)]
  have a: "isLiveTranscribing (ui ?w)" "recognitionRef ?w = Some 0" "running (recognizers ?w ! 0)"
    "\<not> isLiveTranscribing (handlers (recognizers ?w ! 0))"
    unfolding s using assms by (simp_all add: recognitionEffect_def)
  have e: "streamEnd 0 ?w = ?w\<lparr>recognizers := [\<lparr> running = False, handlers = ui w \<rparr>]\<rparr>"
    unfolding s using assms
    by (simp add: streamEnd_def onend_def recognition_stop_def recognitionEffect_def)
  have b: "isLiveTranscribing (ui (streamEnd 0 ?w))"
    "list_all (\<lambda>r. \<not> running r) (recognizers (streamEnd 0 ?w))"
    unfolding e using a(1) by simp_all
  have d: "dependencies (ui ?w) \<noteq> dependencies (ui w)"
    unfolding s using assms(3) by (simp add: dependencies_def)
  have r: "rerender (ui w) ?w = ?w\<lparr>recognizers := [\<lparr> running = False, handlers = ui w \<rparr>,
        \<lparr> running = False, handlers = ui ?w \<rparr>], recognitionRef := Some 1\<rparr>"
    unfolding rerender_def using d
    by (simp add: recognitionCleanup_def recognition_stop_def recognitionEffect_def a(2))
       (simp add: s recognitionEffect_def assms(1))
  have c: "isLiveTranscribing (ui (rerender (ui w) ?w))"
    "list_all (\<lambda>r. \<not> running r) (recognizers (rerender (ui w) ?w))"
    unfolding r using a(1) by simp_all
  have "streamEnd 0 (rerender (ui w) ?w) = rerender (ui w) ?w"
    unfolding r using assms(3)
    by (simp add: streamEnd_def onend_def recognition_stop_def)
  then have f: "list_all (\<lambda>r. \<not> running r) (recognizers (streamEnd 0 (rerender (ui w) ?w)))"
    using c(2) by simp
  show ?thesis using a b c f onerror_stops(1) by blast
qed

theorem live_restart_lost_witness:
  "speechRecognitionSupported initialWorld \<and> recognizers initialWorld = []
   \<and> \<not> isLiveTranscribing (ui initialWorld)
   \<and> isLiveTranscribing (ui (streamEnd 0 (liveSession initialWorld)))
   \<and> list_all (\<lambda>r. \<not> running r) (recognizers (streamEnd 0 (liveSession initialWorld)))
   \<and> list_all (\<lambda>r. \<not> running r)
        (recognizers (streamEnd 0 (rerender (ui initialWorld) (liveSession initialWorld))))"
proof -
  have h: "speechRecognitionSupported initialWorld" "recognizers initialWorld = []"
    "\<not> isLiveTranscribing (ui initialWorld)"
    by (simp_all add: initialWorld_def initialComponent_def)
  show ?thesis using live_restart_lost [OF h] h by blast
qed

section \<open>Properties of recording, upload and synthesis\<close>

lemma simulate_index: "nat \<lfloor>Math_random e * real (length sampleTexts)\<rfloor> < 4"
proof -
  have "0 \<le> frac (random e)" "frac (random e) < 1" by (simp_all add: frac_lt_1)
  then have "0 \<le> frac (random e) * 4" "frac (random e) * 4 < 4" by simp_all
  then have "\<lfloor>frac (random e) * 4\<rfloor> < 4" by (simp add: floor_less_iff)
  then have "nat \<lfloor>frac (random e) * 4\<rfloor> < 4" by linarith
  then show ?thesis by (simp add: Math_random_def sampleTexts_def)
qed

lemma simulate_sample:
  "simulateBrowserTranscription e \<in> set sampleTexts" "simulateBrowserTranscription e \<noteq> []"
proof -
  let ?k = "nat \<lfloor>Math_random e * real (length sampleTexts)\<rfloor>"
  have "?k < length sampleTexts" using simulate_index [of e] by (simp add: sampleTexts_def)
  then show "simulateBrowserTranscription e \<in> set sampleTexts"
    unfolding simulateBrowserTranscription_def by (rule nth_mem)
  then show "simulateBrowserTranscription e \<noteq> []"
    by (auto simp: sampleTexts_def)
qed

lemma loadHistory_frame:
  "transcribedText (ui (loadHistory x)) = transcribedText (ui x)"
  "localStorage (loadHistory x) = localStorage x" "requests (loadHistory x) = requests x"
  "uncaught (loadHistory x) = uncaught x" "microphone (loadHistory x) = microphone x"
  by (simp_all add: loadHistory_def setSttHistory_def setTtsHistory_def split: sum.splits)

lemma recordTranscription_saved:
  assumes "parseHistory (getItem (localStorage w) ''speechLab_stt_history'') = Inr existing"
  shows "fst (recordTranscription c e t a fb fa d w) = Inr ()"
    and "transcribedText (ui (snd (recordTranscription c e t a fb fa d w))) = t"
    and "parseHistory (getItem (localStorage (snd (recordTranscription c e t a fb fa d w)))
           ''speechLab_stt_history'')
         = Inr (sttItem (stamp1 e, t, a, language c, d) # take 49 existing)"
    and "requests (snd (recordTranscription c e t a fb fa d w)) = requests w"
    and "uncaught (snd (recordTranscription c e t a fb fa d w)) = uncaught w"
proof -
  let ?w1 = "setTranscribedText (\<lambda>prev. t) w"
  let ?item = "sttItem (stamp1 e, t, a, language c, d)"
  let ?st = "setItem (localStorage w) ''speechLab_stt_history'' (Items (?item # take 49 existing))"
  have l: "localStorage ?w1 = localStorage w" by (simp add: setTranscribedText_def)
  have sv: "saveSTTHistory (stamp1 e) t a (language c) d (localStorage ?w1) = (Inr ?item, ?st)"
    unfolding l using assms by (simp add: saveSTTHistory_def slice0_def Let_def)
  have r: "recordTranscription c e t a fb fa d w
      = (Inr (), setIsLoading False (loadHistory (?w1\<lparr>localStorage := ?st\<rparr>)))"
    unfolding recordTranscription_def Let_def sv by simp
  show "fst (recordTranscription c e t a fb fa d w) = Inr ()"
    unfolding r by simp
  show "transcribedText (ui (snd (recordTranscription c e t a fb fa d w))) = t"
    unfolding r by (simp add: setIsLoading_def loadHistory_frame setTranscribedText_def)
  show "parseHistory (getItem (localStorage (snd (recordTranscription c e t a fb fa d w)))
           ''speechLab_stt_history'') = Inr (?item # take 49 existing)"
    unfolding r by (simp add: setIsLoading_def loadHistory_frame parseHistory_def getItem_def setItem_def)
  show "requests (snd (recordTranscription c e t a fb fa d w)) = requests w"
    unfolding r by (simp add: setIsLoading_def loadHistory_frame setTranscribedText_def)
  show "uncaught (snd (recordTranscription c e t a fb fa d w)) = uncaught w"
    unfolding r by (simp add: setIsLoading_def loadHistory_frame setTranscribedText_def)
qed

lemma recordTranscription_shown:
  "transcribedText (ui (snd (recordTranscription c e t a fb fa d w))) \<in> {t, fb}"
proof -
  let ?w1 = "setTranscribedText (\<lambda>prev. t) w"
  obtain saved st where sv: "saveSTTHistory (stamp1 e) t a (language c) d (localStorage ?w1)
      = (saved, st)"
    by fastforce
  let ?w2 = "setTranscribedText (\<lambda>prev. fb) (?w1\<lparr>localStorage := st\<rparr>)"
  obtain saved2 st2 where sv2: "saveSTTHistory (stamp2 e) fb fa (language c) d (localStorage ?w2)
      = (saved2, st2)"
    by fastforce
  show ?thesis
    unfolding recordTranscription_def Let_def sv
    using sv2
    by (simp add: setIsLoading_def loadHistory_frame setTranscribedText_def split: sum.splits)
qed

lemma onstop_failed:
  assumes "audioChunksRef w \<noteq> []" and "backendConnected c" and "speechToText e = Inl err"
  shows "onstop c e w =
     (case recordTranscription c e (simulateBrowserTranscription e) 0.85
        ''This is a sample transcription. Your audio has been processed successfully.'' 0.85 5
        (fetch ''/api/speech-to-text'' (setIsLoading True w)) of
        (Inr u, w) \<Rightarrow> w\<lparr>microphone := False\<rparr>
      | (Inl err, w) \<Rightarrow> throw err w)"
  using assms by (simp add: onstop_def transcribeWithWhisper_def Let_def split: prod.splits)

lemma onstop_succeeded:
  assumes "audioChunksRef w \<noteq> []" and "backendConnected c" and "speechToText e = Inr result"
  shows "onstop c e w =
     (case recordTranscription c e (orElse (resp_text result) (orElse (resp_transcription result) [])) 0.95
        ''This is a sample transcription. Your audio has been processed successfully.'' 0.85 5
        (fetch ''/api/speech-to-text'' (setIsLoading True w)) of
        (Inr u, w) \<Rightarrow> w\<lparr>microphone := False\<rparr>
      | (Inl err, w) \<Rightarrow> throw err w)"
  using assms by (simp add: onstop_def transcribeWithWhisper_def Let_def split: prod.splits)

lemma finish_frame:
  "transcribedText (ui (case rw of (Inr u, w) \<Rightarrow> w\<lparr>microphone := False\<rparr> | (Inl err, w) \<Rightarrow> throw err w))
     = transcribedText (ui (snd rw))"
  "localStorage (case rw of (Inr u, w) \<Rightarrow> w\<lparr>microphone := False\<rparr> | (Inl err, w) \<Rightarrow> throw err w)
     = localStorage (snd rw)"
  "fst rw = Inr () \<Longrightarrow>
     uncaught (case rw of (Inr u, w) \<Rightarrow> w\<lparr>microphone := False\<rparr> | (Inl err, w) \<Rightarrow> throw err w)
       = uncaught (snd rw)"
  "fst rw = Inr () \<Longrightarrow>
     \<not> microphone (case rw of (Inr u, w) \<Rightarrow> w\<lparr>microphone := False\<rparr> | (Inl err, w) \<Rightarrow> throw err w)"
  by (cases rw; cases "fst rw"; simp add: throw_def)+

lemma simulate_offline:
  "simulateBrowserTranscription offlineEnv
     = ''The audio processing is complete and here is your transcribed text.''"
proof -
  have "frac (1 / 2 :: real) = 1 / 2" by (simp add: frac_def)
  then show ?thesis
    by (simp add: simulateBrowserTranscription_def Math_random_def offlineEnv_def sampleTexts_def)
qed

lemma recording_fallback:
  assumes "audioChunksRef w \<noteq> []" and "backendConnected c" and "speechToText e = Inl err"
  shows "transcribedText (ui (onstop c e w)) \<noteq> []
     \<and> transcribedText (ui (onstop c e w)) \<in> set sampleTexts \<union>
          {''This is a sample transcription. Your audio has been processed successfully.''}
     \<and> (\<forall>existing. parseHistory (getItem (localStorage w) ''speechLab_stt_history'') = Inr existing \<longrightarrow>
           transcribedText (ui (onstop c e w)) = simulateBrowserTranscription e
           \<and> parseHistory (getItem (localStorage (onstop c e w)) ''speechLab_stt_history'')
               = Inr (sttItem (stamp1 e, simulateBrowserTranscription e, 0.85, language c, 5)
                        # take 49 existing)
           \<and> item_accuracy (sttItem (stamp1 e, simulateBrowserTranscription e, 0.85, language c, 5))
               = Some 0.85
           \<and> item_type (sttItem (stamp1 e, simulateBrowserTranscription e, 0.85, language c, 5))
               = ''stt''
           \<and> uncaught (onstop c e w) = uncaught w
           \<and> \<not> microphone (onstop c e w)
           \<and> (\<forall>e' result. speechToText e' = Inr result \<longrightarrow>
                 (\<exists>item. parseHistory (getItem (localStorage (onstop c e' w)) ''speechLab_stt_history'')
                           = Inr (item # take 49 existing)
                        \<and> item_accuracy item = Some 0.95)))
     \<and> (0.85 :: real) < 0.95"
proof -
  let ?w1 = "fetch ''/api/speech-to-text'' (setIsLoading True w)"
  let ?fb = "''This is a sample transcription. Your audio has been processed successfully.''"
  note f = onstop_failed [OF assms]
  have sh: "transcribedText (ui (onstop c e w)) \<in> {simulateBrowserTranscription e, ?fb}"
    unfolding f finish_frame by (rule recordTranscription_shown)
  then have a: "transcribedText (ui (onstop c e w)) \<noteq> []"
    "transcribedText (ui (onstop c e w)) \<in> set sampleTexts \<union> {?fb}"
    using simulate_sample [of e] by auto
  have b: "transcribedText (ui (onstop c e w)) = simulateBrowserTranscription e
           \<and> parseHistory (getItem (localStorage (onstop c e w)) ''speechLab_stt_history'')
               = Inr (sttItem (stamp1 e, simulateBrowserTranscription e, 0.85, language c, 5)
                        # take 49 existing)
           \<and> uncaught (onstop c e w) = uncaught w
           \<and> \<not> microphone (onstop c e w)
           \<and> (\<forall>e' result. speechToText e' = Inr result \<longrightarrow>
                 (\<exists>item. parseHistory (getItem (localStorage (onstop c e' w)) ''speechLab_stt_history'')
                           = Inr (item # take 49 existing)
                        \<and> item_accuracy item = Some 0.95))"
    if ex: "parseHistory (getItem (localStorage w) ''speechLab_stt_history'') = Inr existing"
    for existing
  proof -
    have p: "parseHistory (getItem (localStorage ?w1) ''speechLab_stt_history'') = Inr existing"
      using ex by (simp add: fetch_def setIsLoading_def)
    have u: "uncaught ?w1 = uncaught w" by (simp add: fetch_def setIsLoading_def)
    note r = recordTranscription_saved [OF p]
    have s: "\<exists>item. parseHistory (getItem (localStorage (onstop c e' w)) ''speechLab_stt_history'')
                     = Inr (item # take 49 existing) \<and> item_accuracy item = Some 0.95"
      if "speechToText e' = Inr result" for e' result
      unfolding onstop_succeeded [OF assms(1,2) that] finish_frame
      using recordTranscription_saved(3) [OF p, of c e'] by simp
    show ?thesis
      unfolding f finish_frame(1,2) finish_frame(3) [OF r(1)]
      using r(2,3,5) u finish_frame(4) [OF r(1)] s by simp
  qed
  show ?thesis
    using a b by simp
qed

lemma recording_fallback_example:
  "audioChunksRef recordedWorld \<noteq> [] \<and> backendConnected onlineComponent
   \<and> speechToText offlineEnv = Inl TransportError
   \<and> parseHistory (getItem (localStorage recordedWorld) ''speechLab_stt_history'') = Inr []
   \<and> transcribedText (ui (onstop onlineComponent offlineEnv recordedWorld))
       = ''The audio processing is complete and here is your transcribed text.''
   \<and> parseHistory (getItem (localStorage (onstop onlineComponent offlineEnv recordedWorld))
        ''speechLab_stt_history'')
       = Inr [sttItem ((''id-1'', ''2025-01-01T10:00:00.000Z''),
                ''The audio processing is complete and here is your transcribed text.'',
                0.85, ''en'', 5)]"
proof -
  have h: "audioChunksRef recordedWorld \<noteq> []" "backendConnected onlineComponent"
    "speechToText offlineEnv = Inl TransportError"
    "parseHistory (getItem (localStorage recordedWorld) ''speechLab_stt_history'') = Inr []"
    by (simp_all add: recordedWorld_def onlineComponent_def offlineEnv_def initialWorld_def
        parseHistory_def getItem_def)
  have v: "stamp1 offlineEnv = (''id-1'', ''2025-01-01T10:00:00.000Z'')" "language onlineComponent = ''en''"
    by (simp_all add: offlineEnv_def onlineComponent_def initialComponent_def)
  show ?thesis
    using recording_fallback [OF h(1-3)] h unfolding simulate_offline v by simp
qed



lemma trim_blank:
  assumes "list_all isWhiteSpace s"
  shows "trim s = []"
proof -
  have "dropWhile isWhiteSpace s = []" using assms by (induction s) auto
  then show ?thesis unfolding trim_def by (simp only: rev.simps dropWhile.simps)
qed

text \<open>
  Claim C8. \<open>handleAudioUpload\<close> rejects a file of more than \<open>100 * 1024 * 1024\<close> bytes, and
  \<open>handleTextToSpeech\<close> a text that is empty or white space only: in both cases an alert
  is shown, no request is sent, and the storage and the state of the component are what
  they were.
\<close>

theorem validation_rejects:
  "(100 * 1024 * 1024 < file_size f \<longrightarrow>
      requests (handleAudioUpload c (Some f) e w) = requests w
      \<and> localStorage (handleAudioUpload c (Some f) e w) = localStorage w
      \<and> ui (handleAudioUpload c (Some f) e w) = ui w
      \<and> alerts (handleAudioUpload c (Some f) e w)
          = alerts w @ [''File too large. Please select a file smaller than 100MB.''])
   \<and> (list_all isWhiteSpace (orElse customText (text_state c)) \<longrightarrow>
      requests (handleTextToSpeech c customText e w) = requests w
      \<and> localStorage (handleTextToSpeech c customText e w) = localStorage w
      \<and> ui (handleTextToSpeech c customText e w) = ui w
      \<and> alerts (handleTextToSpeech c customText e w)
          = alerts w @ [''Please enter some text to convert to speech.''])"
  by (simp add: handleAudioUpload_def handleTextToSpeech_def alert_def trim_blank)

lemma upload_accepted:
  "requests (handleAudioUpload onlineComponent (Some smallFile) offlineEnv initialWorld)
     = [''/api/speech-to-text'']"
  "parseHistory (getItem (localStorage (handleAudioUpload onlineComponent (Some smallFile) offlineEnv
       initialWorld)) ''speechLab_stt_history'')
     = Inr [sttItem ((''id-1'', ''2025-01-01T10:00:00.000Z''),
              ''The audio processing is complete and here is your transcribed text.'',
              0.92, ''en'', 10)]"
proof -
  let ?w1 = "fetch ''/api/speech-to-text'' (setIsLoading True (setAudioFile (Some smallFile) initialWorld))"
  let ?r = "recordTranscription onlineComponent offlineEnv (simulateBrowserTranscription offlineEnv) 0.92
          ''This is a sample transcription from your uploaded audio file.'' 0.92 10 ?w1"
  have p: "parseHistory (getItem (localStorage ?w1) ''speechLab_stt_history'') = Inr []"
    by (simp add: fetch_def setIsLoading_def setAudioFile_def initialWorld_def parseHistory_def
        getItem_def)
  note r = recordTranscription_saved [OF p, of onlineComponent offlineEnv
      "simulateBrowserTranscription offlineEnv" "0.92"
      "''This is a sample transcription from your uploaded audio file.''" "0.92" 10]
  have "handleAudioUpload onlineComponent (Some smallFile) offlineEnv initialWorld
      = (case ?r of (Inr u, w) \<Rightarrow> w | (Inl err, w) \<Rightarrow> throw err w)"
    by (simp add: handleAudioUpload_def smallFile_def onlineComponent_def offlineEnv_def
        allowedTypes_def Let_def)
  also have "\<dots> = snd ?r"
    using r(1) by (cases ?r) auto
  finally have u: "handleAudioUpload onlineComponent (Some smallFile) offlineEnv initialWorld = snd ?r" .
  show "requests (handleAudioUpload onlineComponent (Some smallFile) offlineEnv initialWorld)
     = [''/api/speech-to-text'']"
    unfolding u r(4)
    by (simp add: fetch_def setIsLoading_def setAudioFile_def initialWorld_def)
  show "parseHistory (getItem (localStorage (handleAudioUpload onlineComponent (Some smallFile) offlineEnv
       initialWorld)) ''speechLab_stt_history'')
     = Inr [sttItem ((''id-1'', ''2025-01-01T10:00:00.000Z''),
              ''The audio processing is complete and here is your transcribed text.'',
              0.92, ''en'', 10)]"
    using r(3) unfolding u simulate_offline
    by (simp add: offlineEnv_def onlineComponent_def initialComponent_def)
qed

theorem validation_rejects_witness:
  "100 * 1024 * 1024 < file_size hugeFile
   \<and> requests (handleAudioUpload onlineComponent (Some hugeFile) offlineEnv initialWorld) = []
   \<and> localStorage (handleAudioUpload onlineComponent (Some hugeFile) offlineEnv initialWorld) = Map.empty
   \<and> list_all isWhiteSpace (orElse (Some ''  '') (text_state onlineComponent))
   \<and> requests (handleTextToSpeech onlineComponent (Some ''  '') offlineEnv initialWorld) = []
   \<and> localStorage (handleTextToSpeech onlineComponent (Some ''  '') offlineEnv initialWorld) = Map.empty
   \<and> list_all isWhiteSpace (orElse None (text_state onlineComponent))
   \<and> requests (handleTextToSpeech onlineComponent None offlineEnv initialWorld) = []
   \<and> localStorage (handleTextToSpeech onlineComponent None offlineEnv initialWorld) = Map.empty"
proof -
  have h: "100 * 1024 * 1024 < file_size hugeFile"
    "list_all isWhiteSpace (orElse (Some ''  '') (text_state onlineComponent))"
    "list_all isWhiteSpace (orElse None (text_state onlineComponent))"
    by (simp_all add: hugeFile_def orElse_def isWhiteSpace_def onlineComponent_def initialComponent_def)
  have i: "requests initialWorld = []" "localStorage initialWorld = Map.empty"
    by (simp_all add: initialWorld_def)
  show ?thesis
    using validation_rejects [of hugeFile onlineComponent offlineEnv initialWorld "Some ''  ''"]
      validation_rejects [of hugeFile onlineComponent offlineEnv initialWorld None] h
    unfolding i by simp
qed

text \<open>
  Claim C9 asks that a recording still running after 30 seconds (10 seconds in the voice
  personalizer) is stopped as a manual stop would. \<open>startRecording\<close> runs only from a
  render in which \<open>isRecording\<close> is false, and the callback it schedules tests that captured
  value: the timer is set with the right delay, but when it fires the world is what it
  was, still recording, whereas a manual stop from the next render ends the recording.
  The same holds for the voice personalizer.
\<close>

theorem auto_stop_lost:
  assumes "\<not> isRecording (ui w)" and "getUserMedia e = Inr u" and "\<not> vp_isRecording v"
  shows "isRecording (ui (startRecording (ui w) e w))
     \<and> mediaRecorderRef (startRecording (ui w) e w) = Some Recording
     \<and> timers (startRecording (ui w) e w) = timers w @ [(30000, ui w)]
     \<and> fire (30000, ui w) (startRecording (ui w) e w) = startRecording (ui w) e w
     \<and> \<not> isRecording (ui (stopRecording (ui (startRecording (ui w) e w)) (startRecording (ui w) e w)))
     \<and> mediaRecorderRef (stopRecording (ui (startRecording (ui w) e w)) (startRecording (ui w) e w))
         = Some Inactive
     \<and> vp_isRecording (vp_startRecording (vp_isRecording v) e v)
     \<and> vp_timers (vp_startRecording (vp_isRecording v) e v) = vp_timers v @ [(10000, vp_isRecording v)]
     \<and> vp_autoStop (vp_isRecording v) (vp_startRecording (vp_isRecording v) e v)
         = vp_startRecording (vp_isRecording v) e v
     \<and> \<not> vp_isRecording (vp_stopRecording True (vp_startRecording (vp_isRecording v) e v))"
  using assms
  by (simp add: startRecording_def fire_def autoStop_def stopRecording_def setIsRecording_def
      vp_startRecording_def vp_autoStop_def vp_stopRecording_def Let_def)

theorem auto_stop_lost_witness:
  "\<not> isRecording (ui initialWorld) \<and> getUserMedia offlineEnv = Inr ()
   \<and> \<not> vp_isRecording idlePersonalizer
   \<and> timers (startRecording (ui initialWorld) offlineEnv initialWorld) = [(30000, initialComponent)]
   \<and> isRecording (ui (fire (30000, initialComponent)
        (startRecording (ui initialWorld) offlineEnv initialWorld)))
   \<and> mediaRecorderRef (fire (30000, initialComponent)
        (startRecording (ui initialWorld) offlineEnv initialWorld)) = Some Recording
   \<and> vp_isRecording (vp_autoStop False (vp_startRecording False offlineEnv idlePersonalizer))"
proof -
  have h: "\<not> isRecording (ui initialWorld)" "getUserMedia offlineEnv = Inr ()"
    "\<not> vp_isRecording idlePersonalizer"
    by (simp_all add: initialWorld_def initialComponent_def offlineEnv_def idlePersonalizer_def)
  have u: "ui initialWorld = initialComponent" "timers initialWorld = []"
    "vp_isRecording idlePersonalizer = False"
    by (simp_all add: initialWorld_def idlePersonalizer_def)
  show ?thesis using auto_stop_lost [OF h] h unfolding u by simp
qed

end
